theory Spec2Isabelle
  imports Complex_Main "HOL-Library.Sublist"
begin

section \<open>Data model\<close>

text \<open>
  The module \<^verbatim>\<open>src/mixmatch.py\<close> works on two-dimensional numpy arrays of floats.
  An array of shape \<open>(n, m)\<close> is a record of its column count and of its \<open>n\<close> rows; the
  column count is kept apart from the rows because an array with no row still has one
  (\<^verbatim>\<open>np.concatenate\<close> compares it). Floats are idealised as reals: the properties below
  are about shapes, order of rows and the flow of data, not about rounding.
\<close>

record ndarray =
  ncols :: nat
  rows :: "real list list"

text \<open>\<^verbatim>\<open>len(A)\<close>: the number of rows.\<close>

definition nrows :: "ndarray \<Rightarrow> nat" where
  "nrows A = length (rows A)"

text \<open>\<^verbatim>\<open>A.shape\<close>.\<close>

definition shape :: "ndarray \<Rightarrow> nat \<times> nat" where
  "shape A = (nrows A, ncols A)"

text \<open>A record is a numpy array when each of its rows has \<open>ncols\<close> entries.\<close>

definition wf_array :: "ndarray \<Rightarrow> bool" where
  "wf_array A = list_all (\<lambda>r. length r = ncols A) (rows A)"

text \<open>
  Exceptions are values. \<open>ValueError\<close> and \<open>IndexError\<close> are the ones numpy,
  scikit-learn and Python raise on the paths of this module; \<open>PropagatedFailure\<close> is any
  exception raised inside the predictor or inside the external mixup routine, which the
  module does not catch. \<open>BadReference\<close> is no Python exception: in the model with an
  explicit store it is the outcome of reading an address that holds no object of the
  expected kind, which a Python reference cannot be.
\<close>

datatype error = ValueError | IndexError | PropagatedFailure | BadReference

text \<open>
  The calls the module makes to its external collaborators are recorded, with their
  arguments, in the order they happen: the predictor \<^verbatim>\<open>model\<close>, scikit-learn's
  \<^verbatim>\<open>shuffle\<close> and \<^verbatim>\<open>mixup_ot1d\<close> of \<^verbatim>\<open>src/mixup.py\<close>.
\<close>

datatype event =
    PredictCall ndarray
  | ShuffleCall ndarray "real list list"
  | MixupCall ndarray ndarray ndarray "real list list" real int

text \<open>Which collaborator an entry of the log calls.\<close>

fun is_predict :: "event \<Rightarrow> bool" where
  "is_predict (PredictCall A) = True"
| "is_predict (ShuffleCall W L) = False"
| "is_predict (MixupCall A P LA LP alpha K) = False"

fun is_mixup :: "event \<Rightarrow> bool" where
  "is_mixup (PredictCall A) = False"
| "is_mixup (ShuffleCall W L) = False"
| "is_mixup (MixupCall A P LA LP alpha K) = True"

text \<open>
  The state threaded through a run: the state of numpy's global random generator (which
  \<^verbatim>\<open>np.random.normal\<close> and \<^verbatim>\<open>shuffle\<close> with its default \<^verbatim>\<open>random_state\<close>
  both draw from) and the log of external calls.
\<close>

record 'r runstate =
  rng :: 'r
  trace :: "event list"

text \<open>
  What the module imports and does not define, taken as parameters:
  \<^item> \<open>gauss scale g\<close>: one draw of the generator from the centred normal distribution of
    standard deviation \<open>scale\<close>, with the generator's next state;
  \<^item> \<open>permutation n g\<close>: the index order \<^verbatim>\<open>shuffle\<close> draws for \<open>n\<close> samples;
  \<^item> \<open>mixup_ot1d\<close>: the routine of \<^verbatim>\<open>src/mixup.py\<close>, which may draw from the
    generator and may raise (\<open>None\<close>);
  \<^item> \<open>ragged_ok\<close>: whether \<^verbatim>\<open>np.array\<close> accepts rows of different lengths (numpy
    before 1.24 builds a one-dimensional array of lists, later versions raise
    \<^verbatim>\<open>ValueError\<close>).
\<close>

record 'r env =
  gauss :: "real \<Rightarrow> 'r \<Rightarrow> real \<times> 'r"
  permutation :: "nat \<Rightarrow> 'r \<Rightarrow> nat list \<times> 'r"
  mixup_ot1d :: "ndarray \<Rightarrow> ndarray \<Rightarrow> ndarray \<Rightarrow> real list list \<Rightarrow> real \<Rightarrow> int \<Rightarrow> 'r
                 \<Rightarrow> (ndarray \<times> ndarray) option \<times> 'r"
  ragged_ok :: bool

section \<open>The numpy and scikit-learn operations used\<close>

text \<open>
  \<^verbatim>\<open>np.random.normal(size=(n, m), scale=scale)\<close>: raises \<^verbatim>\<open>ValueError\<close> on a negative
  scale, else fills an \<open>(n, m)\<close> array with successive draws, row by row.
\<close>

fun draw_row :: "(real \<Rightarrow> 'r \<Rightarrow> real \<times> 'r) \<Rightarrow> real \<Rightarrow> nat \<Rightarrow> 'r \<Rightarrow> real list \<times> 'r" where
  "draw_row g scale 0 s = ([], s)"
| "draw_row g scale (Suc m) s =
     (case g scale s of (x, s1) \<Rightarrow>
        (case draw_row g scale m s1 of (xs, s2) \<Rightarrow> (x # xs, s2)))"

fun draw_rows :: "(real \<Rightarrow> 'r \<Rightarrow> real \<times> 'r) \<Rightarrow> real \<Rightarrow> nat \<Rightarrow> nat \<Rightarrow> 'r
                  \<Rightarrow> real list list \<times> 'r" where
  "draw_rows g scale 0 m s = ([], s)"
| "draw_rows g scale (Suc n) m s =
     (case draw_row g scale m s of (r, s1) \<Rightarrow>
        (case draw_rows g scale n m s1 of (rs, s2) \<Rightarrow> (r # rs, s2)))"

definition np_random_normal :: "'r env \<Rightarrow> nat \<times> nat \<Rightarrow> real \<Rightarrow> 'r \<Rightarrow> (error + ndarray) \<times> 'r" where
  "np_random_normal e sz scale g =
     (if scale < 0 then (Inl ValueError, g)
      else (case draw_rows (gauss e) scale (fst sz) (snd sz) g of
              (rs, g') \<Rightarrow> (Inr \<lparr>ncols = snd sz, rows = rs\<rparr>, g')))"

text \<open>
  \<^verbatim>\<open>X + N\<close> for two arrays of one shape: entry by entry. The module only adds to \<open>X\<close>
  a noise array drawn with \<open>X\<close>'s shape.
\<close>

definition add_arr :: "ndarray \<Rightarrow> ndarray \<Rightarrow> ndarray" where
  "add_arr X N = \<lparr>ncols = ncols X, rows = map2 (map2 (+)) (rows X) (rows N)\<rparr>"

text \<open>
  \<^verbatim>\<open>np.concatenate(As, axis=1)\<close>: raises \<^verbatim>\<open>ValueError\<close> on an empty sequence and when
  the row counts differ; else glues the arrays side by side.
\<close>

fun hcat :: "ndarray list \<Rightarrow> real list list" where
  "hcat [] = []"
| "hcat [A] = rows A"
| "hcat (A # B # Bs) = map2 (@) (rows A) (hcat (B # Bs))"

definition np_concatenate_axis1 :: "ndarray list \<Rightarrow> error + ndarray" where
  "np_concatenate_axis1 As =
     (case As of
        [] \<Rightarrow> Inl ValueError
      | A # Bs \<Rightarrow>
          (if list_all (\<lambda>B. nrows B = nrows A) Bs
           then Inr \<lparr>ncols = sum_list (map ncols As), rows = hcat As\<rparr>
           else Inl ValueError))"

text \<open>\<^verbatim>\<open>Q.sort(axis=1)\<close>: each row sorted into ascending order, in place.\<close>

definition sort_axis1 :: "ndarray \<Rightarrow> ndarray" where
  "sort_axis1 Q = Q\<lparr>rows := map sort (rows Q)\<rparr>"

text \<open>
  \<^verbatim>\<open>np.concatenate((A, B), axis=0)\<close>: raises \<^verbatim>\<open>ValueError\<close> when the column counts
  differ; else stacks the rows of \<open>A\<close> over those of \<open>B\<close>.
\<close>

definition np_concatenate_axis0 :: "ndarray \<Rightarrow> ndarray \<Rightarrow> error + ndarray" where
  "np_concatenate_axis0 A B =
     (if ncols A = ncols B then Inr \<lparr>ncols = ncols A, rows = rows A @ rows B\<rparr>
      else Inl ValueError)"

text \<open>\<^verbatim>\<open>A.tolist()\<close>: the list of the rows, each a list.\<close>

definition tolist :: "ndarray \<Rightarrow> real list list" where
  "tolist A = rows A"

text \<open>
  A list of lists is the content of a two-dimensional array when it has a row and all
  rows have one length. \<^verbatim>\<open>np.array\<close> of any other list of lists is not two-dimensional:
  of the empty list it is the empty one-dimensional array, of rows of different lengths
  it is a one-dimensional array of lists, or \<^verbatim>\<open>ValueError\<close>, by the numpy version. The
  result is kept as its list of rows; \<^verbatim>\<open>len\<close> and row slices read it the same way in
  both forms.
\<close>

definition is_2d :: "real list list \<Rightarrow> bool" where
  "is_2d rs = (rs \<noteq> [] \<and> list_all (\<lambda>r. length r = length (hd rs)) rs)"

definition np_array :: "'r env \<Rightarrow> real list list \<Rightarrow> error + real list list" where
  "np_array e rs =
     (if rs = [] \<or> is_2d rs \<or> ragged_ok e then Inr rs else Inl ValueError)"

text \<open>
  \<^verbatim>\<open>shuffle(W, Wlabels)\<close> of scikit-learn: raises \<^verbatim>\<open>ValueError\<close> when the two lengths
  differ (\<^verbatim>\<open>check_consistent_length\<close>), else draws one index order and takes the rows of
  both arrays in that order (an index out of range would raise \<^verbatim>\<open>IndexError\<close>).
\<close>

definition shuffle :: "'r env \<Rightarrow> ndarray \<Rightarrow> real list list \<Rightarrow> 'r runstate
    \<Rightarrow> (error + ndarray \<times> real list list) \<times> 'r runstate" where
  "shuffle e W Wlabels s =
     (let s0 = s\<lparr>trace := trace s @ [ShuffleCall W Wlabels]\<rparr> in
      if nrows W \<noteq> length Wlabels then (Inl ValueError, s0)
      else (case permutation e (nrows W) (rng s0) of
              (p, g') \<Rightarrow>
                (if list_all (\<lambda>i. i < nrows W) p
                 then (Inr (W\<lparr>rows := map (\<lambda>i. rows W ! i) p\<rparr>, map (\<lambda>i. Wlabels ! i) p),
                       s0\<lparr>rng := g'\<rparr>)
                 else (Inl IndexError, s0\<lparr>rng := g'\<rparr>))))"

text \<open>Row slices \<^verbatim>\<open>W[:l]\<close> and \<^verbatim>\<open>W[l:]\<close> of an array.\<close>

definition slice_to :: "nat \<Rightarrow> ndarray \<Rightarrow> ndarray" where
  "slice_to l W = W\<lparr>rows := take l (rows W)\<rparr>"

definition slice_from :: "nat \<Rightarrow> ndarray \<Rightarrow> ndarray" where
  "slice_from l W = W\<lparr>rows := drop l (rows W)\<rparr>"

text \<open>A call of the external \<^verbatim>\<open>mixup_ot1d\<close>, logged with its arguments.\<close>

definition call_mixup :: "'r env \<Rightarrow> ndarray \<Rightarrow> ndarray \<Rightarrow> ndarray \<Rightarrow> real list list \<Rightarrow> real \<Rightarrow> int
    \<Rightarrow> 'r runstate \<Rightarrow> (error + ndarray \<times> ndarray) \<times> 'r runstate" where
  "call_mixup e A P LA LP alpha K s =
     (let s0 = s\<lparr>trace := trace s @ [MixupCall A P LA LP alpha K]\<rparr> in
      case mixup_ot1d e A P LA LP alpha K (rng s0) of
        (None, g') \<Rightarrow> (Inl PropagatedFailure, s0\<lparr>rng := g'\<rparr>)
      | (Some r, g') \<Rightarrow> (Inr r, s0\<lparr>rng := g'\<rparr>))"

section \<open>The module\<close>

text \<open>
  \<^verbatim>\<open>generate_noise(X, stddev)\<close> (lines 18 to 34):
  \<^verbatim>\<open>np.random.normal(size=X.shape, scale=stddev)\<close>.
\<close>

definition generate_noise :: "'r env \<Rightarrow> ndarray \<Rightarrow> real \<Rightarrow> 'r runstate
    \<Rightarrow> (error + ndarray) \<times> 'r runstate" where
  "generate_noise e X stddev s =
     (case np_random_normal e (shape X) stddev (rng s) of
        (r, g') \<Rightarrow> (r, s\<lparr>rng := g'\<rparr>))"

text \<open>
  \<^verbatim>\<open>noisy_augment(X, stddev, K)\<close> (lines 37 to 53): the comprehension
  \<^verbatim>\<open>[X+generate_noise(X,stddev=stddev) for i in range(K)]\<close>. \<^verbatim>\<open>range(K)\<close> has
  \<open>nat K\<close> elements: none when \<open>K \<le> 0\<close>. An exception of one iteration ends the
  comprehension.
\<close>

fun augs_loop :: "'r env \<Rightarrow> ndarray \<Rightarrow> real \<Rightarrow> nat \<Rightarrow> 'r runstate
    \<Rightarrow> (error + ndarray list) \<times> 'r runstate" where
  "augs_loop e X stddev 0 s = (Inr [], s)"
| "augs_loop e X stddev (Suc k) s =
     (case generate_noise e X stddev s of
        (Inl err, s1) \<Rightarrow> (Inl err, s1)
      | (Inr N, s1) \<Rightarrow>
          (case augs_loop e X stddev k s1 of
             (Inl err, s2) \<Rightarrow> (Inl err, s2)
           | (Inr augs, s2) \<Rightarrow> (Inr (add_arr X N # augs), s2)))"

definition noisy_augment :: "'r env \<Rightarrow> ndarray \<Rightarrow> real \<Rightarrow> int \<Rightarrow> 'r runstate
    \<Rightarrow> (error + ndarray list) \<times> 'r runstate" where
  "noisy_augment e X stddev K s = augs_loop e X stddev (nat K) s"

text \<open>
  \<^verbatim>\<open>modeln = lambda x : model(x).numpy()\<close> (line 94), a logged call of the predictor,
  and \<^verbatim>\<open>list(map(modeln,Uaugs))\<close> (line 95), which calls it on each copy in order.
\<close>

definition modeln :: "(ndarray \<Rightarrow> ndarray option) \<Rightarrow> ndarray \<Rightarrow> 'r runstate
    \<Rightarrow> (error + ndarray) \<times> 'r runstate" where
  "modeln model x s =
     (let s0 = s\<lparr>trace := trace s @ [PredictCall x]\<rparr> in
      case model x of None \<Rightarrow> (Inl PropagatedFailure, s0) | Some P \<Rightarrow> (Inr P, s0))"

fun map_modeln :: "(ndarray \<Rightarrow> ndarray option) \<Rightarrow> ndarray list \<Rightarrow> 'r runstate
    \<Rightarrow> (error + ndarray list) \<times> 'r runstate" where
  "map_modeln model [] s = (Inr [], s)"
| "map_modeln model (x # xs) s =
     (case modeln model x s of
        (Inl err, s1) \<Rightarrow> (Inl err, s1)
      | (Inr P, s1) \<Rightarrow>
          (case map_modeln model xs s1 of
             (Inl err, s2) \<Rightarrow> (Inl err, s2)
           | (Inr Ps, s2) \<Rightarrow> (Inr (P # Ps), s2)))"

text \<open>
  \<^verbatim>\<open>mixmatch_ot1d\<close> (lines 57 to 122) is the composition of three stages and of the
  shuffle, split and mixup steps. Each stage is a run of consecutive lines of the body,
  named so that the values it leaves in the local variables can be spoken about.

  Lines 87 to 91: \<^verbatim>\<open>Xhat\<close>, \<^verbatim>\<open>Uaugs\<close> and \<^verbatim>\<open>Uhat = Uaugs[-1]\<close>, which raises
  \<^verbatim>\<open>IndexError\<close> on an empty list.
\<close>

definition mix_augment :: "'r env \<Rightarrow> ndarray \<Rightarrow> ndarray \<Rightarrow> real \<Rightarrow> int \<Rightarrow> 'r runstate
    \<Rightarrow> (error + ndarray \<times> ndarray list \<times> ndarray) \<times> 'r runstate" where
  "mix_augment e X U stddev naug s =
     (case generate_noise e X stddev s of
        (Inl err, s1) \<Rightarrow> (Inl err, s1)
      | (Inr N, s1) \<Rightarrow>
          (let Xhat = add_arr X N in
           case noisy_augment e U stddev naug s1 of
             (Inl err, s2) \<Rightarrow> (Inl err, s2)
           | (Inr Uaugs, s2) \<Rightarrow>
               (if Uaugs = [] then (Inl IndexError, s2)
                else (Inr (Xhat, Uaugs, last Uaugs), s2))))"

text \<open>Lines 94 to 100: \<^verbatim>\<open>preds\<close>, then \<^verbatim>\<open>Q\<close>, sorted along each row.\<close>

definition mix_labels :: "(ndarray \<Rightarrow> ndarray option) \<Rightarrow> ndarray list \<Rightarrow> 'r runstate
    \<Rightarrow> (error + ndarray) \<times> 'r runstate" where
  "mix_labels model Uaugs s =
     (case map_modeln model Uaugs s of
        (Inl err, s1) \<Rightarrow> (Inl err, s1)
      | (Inr preds, s1) \<Rightarrow>
          (case np_concatenate_axis1 preds of
             Inl err \<Rightarrow> (Inl err, s1)
           | Inr Q \<Rightarrow> (Inr (sort_axis1 Q), s1)))"

text \<open>
  Lines 103 to 107: the pool \<^verbatim>\<open>W\<close> and its labels \<^verbatim>\<open>Wlabels\<close>. \<open>label_rows\<close> is the
  Python list \<^verbatim>\<open>Y.tolist()+Q.tolist()\<close> of line 106.
\<close>

definition label_rows :: "ndarray \<Rightarrow> ndarray \<Rightarrow> real list list" where
  "label_rows Y Q = tolist Y @ tolist Q"

definition mix_pool :: "'r env \<Rightarrow> ndarray \<Rightarrow> ndarray \<Rightarrow> ndarray \<Rightarrow> ndarray
    \<Rightarrow> error + ndarray \<times> real list list" where
  "mix_pool e Xhat Uhat Y Q =
     (case np_concatenate_axis0 Xhat Uhat of
        Inl err \<Rightarrow> Inl err
      | Inr W \<Rightarrow>
          (case np_array e (label_rows Y Q) of
             Inl err \<Rightarrow> Inl err
           | Inr Wlabels \<Rightarrow> Inr (W, Wlabels)))"

text \<open>
  Lines 110 to 122: the shuffle, the split at \<^verbatim>\<open>l = len(W)//2\<close> and the two calls of
  \<^verbatim>\<open>mixup_ot1d\<close>.
\<close>

definition mix_halves :: "'r env \<Rightarrow> ndarray \<Rightarrow> ndarray \<Rightarrow> ndarray \<Rightarrow> ndarray \<Rightarrow> ndarray
    \<Rightarrow> real list list \<Rightarrow> real \<Rightarrow> int \<Rightarrow> 'r runstate
    \<Rightarrow> (error + ndarray \<times> ndarray \<times> ndarray \<times> ndarray) \<times> 'r runstate" where
  "mix_halves e Xhat Uhat Y Q W Wlabels alpha K s =
     (case shuffle e W Wlabels s of
        (Inl err, s1) \<Rightarrow> (Inl err, s1)
      | (Inr (W', Wlabels'), s1) \<Rightarrow>
          (let l = nrows W' div 2 in
           case call_mixup e Xhat (slice_to l W') Y (take l Wlabels') alpha K s1 of
             (Inl err, s2) \<Rightarrow> (Inl err, s2)
           | (Inr (Xprime, Yprime), s2) \<Rightarrow>
               (case call_mixup e Uhat (slice_from l W') Q (drop l Wlabels') alpha K s2 of
                  (Inl err, s3) \<Rightarrow> (Inl err, s3)
                | (Inr (Uprime, Qprime), s3) \<Rightarrow>
                    (Inr (Xprime, Yprime, Uprime, Qprime), s3))))"

definition mixmatch_ot1d :: "'r env \<Rightarrow> (ndarray \<Rightarrow> ndarray option) \<Rightarrow> ndarray \<Rightarrow> ndarray \<Rightarrow> ndarray
    \<Rightarrow> real \<Rightarrow> real \<Rightarrow> int \<Rightarrow> int \<Rightarrow> 'r runstate
    \<Rightarrow> (error + ndarray \<times> ndarray \<times> ndarray \<times> ndarray) \<times> 'r runstate" where
  "mixmatch_ot1d e model X Y U stddev alpha K naug s =
     (case mix_augment e X U stddev naug s of
        (Inl err, s1) \<Rightarrow> (Inl err, s1)
      | (Inr (Xhat, Uaugs, Uhat), s1) \<Rightarrow>
          (case mix_labels model Uaugs s1 of
             (Inl err, s2) \<Rightarrow> (Inl err, s2)
           | (Inr Q, s2) \<Rightarrow>
               (case mix_pool e Xhat Uhat Y Q of
                  Inl err \<Rightarrow> (Inl err, s2)
                | Inr (W, Wlabels) \<Rightarrow>
                    mix_halves e Xhat Uhat Y Q W Wlabels alpha K s2)))"

definition default_alpha :: real where "default_alpha = 0.75"
definition default_K :: int where "default_K = 3"
definition default_augment_K :: int where "default_augment_K = 10"

section \<open>The module over an explicit store\<close>

text \<open>
  Whether a call writes to its arguments cannot be read off functions from values to
  values. For that question the same body is modelled once more over a store: an array is
  an object at an address, a Python variable holds an address, every numpy operation that
  returns an array allocates a new object, and \<^verbatim>\<open>Q.sort(axis=1)\<close> overwrites the object
  it is called on. The store is the list of the objects allocated so far; an address is an
  index into it.
\<close>

type_synonym addr = nat

datatype obj = Arr ndarray | Labels "real list list"

record 'r mstate =
  gen :: 'r
  store :: "obj list"

text \<open>A computation on the store returns a value or raises.\<close>

type_synonym ('r, 'a) run = "'r mstate \<Rightarrow> (error + 'a) \<times> 'r mstate"

definition returns :: "'a \<Rightarrow> ('r, 'a) run" where
  "returns x s = (Inr x, s)"

definition raises :: "error \<Rightarrow> ('r, 'a) run" where
  "raises err s = (Inl err, s)"

definition bind_run :: "('r, 'a) run \<Rightarrow> ('a \<Rightarrow> ('r, 'b) run) \<Rightarrow> ('r, 'b) run" where
  "bind_run m f s = (case m s of (Inl err, s') \<Rightarrow> (Inl err, s') | (Inr x, s') \<Rightarrow> f x s')"

text \<open>The outcome of a pure operation, and a draw from the generator.\<close>

definition lift_result :: "error + 'a \<Rightarrow> ('r, 'a) run" where
  "lift_result r s = (r, s)"

definition with_gen :: "('r \<Rightarrow> (error + 'a) \<times> 'r) \<Rightarrow> ('r, 'a) run" where
  "with_gen f s = (case f (gen s) of (r, g') \<Rightarrow> (r, s\<lparr>gen := g'\<rparr>))"

text \<open>Allocation of a new object, reads, and the one write in place.\<close>

definition new_obj :: "obj \<Rightarrow> ('r, addr) run" where
  "new_obj v s = (Inr (length (store s)), s\<lparr>store := store s @ [v]\<rparr>)"

definition get_arr :: "addr \<Rightarrow> ('r, ndarray) run" where
  "get_arr a s =
     (if a < length (store s)
      then (case store s ! a of Arr A \<Rightarrow> (Inr A, s) | Labels L \<Rightarrow> (Inl BadReference, s))
      else (Inl BadReference, s))"

definition get_labels :: "addr \<Rightarrow> ('r, real list list) run" where
  "get_labels a s =
     (if a < length (store s)
      then (case store s ! a of Arr A \<Rightarrow> (Inl BadReference, s) | Labels L \<Rightarrow> (Inr L, s))
      else (Inl BadReference, s))"

definition put_arr :: "addr \<Rightarrow> ndarray \<Rightarrow> ('r, unit) run" where
  "put_arr a A s =
     (if a < length (store s) then (Inr (), s\<lparr>store := (store s)[a := Arr A]\<rparr>)
      else (Inl BadReference, s))"

fun get_arrs :: "addr list \<Rightarrow> ('r, ndarray list) run" where
  "get_arrs [] s = returns [] s"
| "get_arrs (a # as) s =
     bind_run (get_arr a) (\<lambda>A. bind_run (get_arrs as) (\<lambda>As. returns (A # As))) s"

text \<open>
  \<^verbatim>\<open>X + generate_noise(X, stddev)\<close> (lines 87 and 52): the noise is a new array and the
  sum is another.
\<close>

definition noisy_copy_at :: "'r env \<Rightarrow> addr \<Rightarrow> real \<Rightarrow> ('r, addr) run" where
  "noisy_copy_at e ax stddev =
     bind_run (get_arr ax) (\<lambda>X.
     bind_run (with_gen (np_random_normal e (shape X) stddev)) (\<lambda>N.
     bind_run (new_obj (Arr N)) (\<lambda>an.
     new_obj (Arr (add_arr X N)))))"

fun augs_loop_at :: "'r env \<Rightarrow> addr \<Rightarrow> real \<Rightarrow> nat \<Rightarrow> ('r, addr list) run" where
  "augs_loop_at e ax stddev 0 s = returns [] s"
| "augs_loop_at e ax stddev (Suc k) s =
     bind_run (noisy_copy_at e ax stddev) (\<lambda>a.
     bind_run (augs_loop_at e ax stddev k) (\<lambda>augs. returns (a # augs))) s"

text \<open>
  The predictor and the mixup routine are external: over the store they are arbitrary
  computations, which get addresses and may do to the store whatever they like.
  \<^verbatim>\<open>list(map(modeln,Uaugs))\<close> calls the predictor on each copy in turn.
\<close>

fun map_model_at :: "(addr \<Rightarrow> ('r, addr) run) \<Rightarrow> addr list \<Rightarrow> ('r, addr list) run" where
  "map_model_at model_at [] s = returns [] s"
| "map_model_at model_at (a # as) s =
     bind_run (model_at a) (\<lambda>p.
     bind_run (map_model_at model_at as) (\<lambda>ps. returns (p # ps))) s"

text \<open>\<^verbatim>\<open>shuffle(W, Wlabels)\<close> returns two new arrays.\<close>

definition shuffle_at :: "'r env \<Rightarrow> addr \<Rightarrow> addr \<Rightarrow> ('r, addr \<times> addr) run" where
  "shuffle_at e aw al =
     bind_run (get_arr aw) (\<lambda>W.
     bind_run (get_labels al) (\<lambda>Wlabels.
       if nrows W \<noteq> length Wlabels then raises ValueError
       else bind_run (with_gen (\<lambda>g. case permutation e (nrows W) g of (p, g') \<Rightarrow> (Inr p, g'))) (\<lambda>p.
         if list_all (\<lambda>i. i < nrows W) p
         then bind_run (new_obj (Arr (W\<lparr>rows := map (\<lambda>i. rows W ! i) p\<rparr>))) (\<lambda>aw'.
              bind_run (new_obj (Labels (map (\<lambda>i. Wlabels ! i) p))) (\<lambda>al'.
              returns (aw', al')))
         else raises IndexError)))"

text \<open>
  The body of \<^verbatim>\<open>mixmatch_ot1d\<close>, line by line. \<open>Uhat\<close> is the address of the last copy,
  not a new object (line 91); \<open>Y\<close> and \<open>Q\<close> themselves are handed to the mixup routine
  (lines 116 and 119). A slice \<^verbatim>\<open>W[:l]\<close> is a view in numpy: it is modelled as an object
  of its own, which differs from a view only if the callee writes to it.
\<close>

definition mixmatch_ot1d_at :: "'r env \<Rightarrow> (addr \<Rightarrow> ('r, addr) run)
    \<Rightarrow> (addr \<Rightarrow> addr \<Rightarrow> addr \<Rightarrow> addr \<Rightarrow> real \<Rightarrow> int \<Rightarrow> ('r, addr \<times> addr) run)
    \<Rightarrow> addr \<Rightarrow> addr \<Rightarrow> addr \<Rightarrow> real \<Rightarrow> real \<Rightarrow> int \<Rightarrow> int
    \<Rightarrow> ('r, addr \<times> addr \<times> addr \<times> addr) run" where
  "mixmatch_ot1d_at e model_at mixup_at ax ay au stddev alpha K naug =
     bind_run (noisy_copy_at e ax stddev) (\<lambda>axhat.
     bind_run (augs_loop_at e au stddev (nat naug)) (\<lambda>uaugs.
     bind_run (if uaugs = [] then raises IndexError else returns (last uaugs)) (\<lambda>auhat.
     bind_run (map_model_at model_at uaugs) (\<lambda>preds.
     bind_run (get_arrs preds) (\<lambda>Ps.
     bind_run (lift_result (np_concatenate_axis1 Ps)) (\<lambda>Q0.
     bind_run (new_obj (Arr Q0)) (\<lambda>aq.
     bind_run (get_arr aq) (\<lambda>Q1.
     bind_run (put_arr aq (sort_axis1 Q1)) (\<lambda>_.
     bind_run (get_arr axhat) (\<lambda>Xhat.
     bind_run (get_arr auhat) (\<lambda>Uhat.
     bind_run (lift_result (np_concatenate_axis0 Xhat Uhat)) (\<lambda>W.
     bind_run (new_obj (Arr W)) (\<lambda>aw.
     bind_run (get_arr ay) (\<lambda>Y.
     bind_run (get_arr aq) (\<lambda>Q.
     bind_run (lift_result (np_array e (label_rows Y Q))) (\<lambda>Wlabels.
     bind_run (new_obj (Labels Wlabels)) (\<lambda>al.
     bind_run (shuffle_at e aw al) (\<lambda>(aw', al').
     bind_run (get_arr aw') (\<lambda>W'.
     bind_run (get_labels al') (\<lambda>Wlabels'.
     bind_run (new_obj (Arr (slice_to (nrows W' div 2) W'))) (\<lambda>a1.
     bind_run (new_obj (Labels (take (nrows W' div 2) Wlabels'))) (\<lambda>l1.
     bind_run (mixup_at axhat a1 ay l1 alpha K) (\<lambda>(axprime, ayprime).
     bind_run (get_arr aw') (\<lambda>W''.
     bind_run (get_labels al') (\<lambda>Wlabels''.
     bind_run (new_obj (Arr (slice_from (nrows W' div 2) W''))) (\<lambda>a2.
     bind_run (new_obj (Labels (drop (nrows W' div 2) Wlabels''))) (\<lambda>l2.
     bind_run (mixup_at auhat a2 aq l2 alpha K) (\<lambda>(auprime, aqprime).
     returns (axprime, ayprime, auprime, aqprime)))))))))))))))))))))))))))))"

text \<open>
  Modelled from the spec: \<^verbatim>\<open>mixup_ot1d\<close> of \<^verbatim>\<open>src/mixup.py\<close> and the predictor are
  not among the sources at hand. The spec has the predictor invoked read-only and the
  mixup routine return new batches; over the store that is: they read their arguments and
  allocate what they return.
\<close>

definition model_alloc :: "(ndarray \<Rightarrow> ndarray option) \<Rightarrow> addr \<Rightarrow> ('r, addr) run" where
  "model_alloc model a =
     bind_run (get_arr a) (\<lambda>A.
       case model A of None \<Rightarrow> raises PropagatedFailure | Some P \<Rightarrow> new_obj (Arr P))"

definition mixup_alloc :: "'r env \<Rightarrow> addr \<Rightarrow> addr \<Rightarrow> addr \<Rightarrow> addr \<Rightarrow> real \<Rightarrow> int
    \<Rightarrow> ('r, addr \<times> addr) run" where
  "mixup_alloc e aa ap ala alp alpha K =
     bind_run (get_arr aa) (\<lambda>A.
     bind_run (get_arr ap) (\<lambda>P.
     bind_run (get_arr ala) (\<lambda>LA.
     bind_run (get_labels alp) (\<lambda>LP.
     bind_run (with_gen (\<lambda>g. case mixup_ot1d e A P LA LP alpha K g of
                              (None, g') \<Rightarrow> (Inl PropagatedFailure, g')
                            | (Some out, g') \<Rightarrow> (Inr out, g'))) (\<lambda>(Xprime, Yprime).
     bind_run (new_obj (Arr Xprime)) (\<lambda>a.
     bind_run (new_obj (Arr Yprime)) (\<lambda>b.
     returns (a, b))))))))"

text \<open>
  A mixup routine of another kind, which overwrites its anchor labels with zeros before
  it returns them: the behaviour of a callee that a frame property of \<^verbatim>\<open>mixmatch_ot1d\<close>
  has to exclude, since \<open>Y\<close> itself is passed to the callee.
\<close>

definition mixup_zeroing :: "addr \<Rightarrow> addr \<Rightarrow> addr \<Rightarrow> addr \<Rightarrow> real \<Rightarrow> int
    \<Rightarrow> ('r, addr \<times> addr) run" where
  "mixup_zeroing aa ap ala alp alpha K =
     bind_run (get_arr ala) (\<lambda>LA.
     bind_run (put_arr ala (LA\<lparr>rows := map (map (\<lambda>x. 0)) (rows LA)\<rparr>)) (\<lambda>_.
     returns (aa, ala)))"

text \<open>
  The frame property of a computation, relative to the store \<open>h0\<close> it was started on:
  whatever it does, the objects of \<open>h0\<close> are still there and unchanged, and a value it
  returns satisfies \<open>Q\<close>.
\<close>

definition keeps :: "obj list \<Rightarrow> ('r, 'a) run \<Rightarrow> ('a \<Rightarrow> bool) \<Rightarrow> bool" where
  "keeps h0 m Q \<longleftrightarrow>
     (\<forall>s r s'. prefix h0 (store s) \<longrightarrow> m s = (r, s') \<longrightarrow>
        prefix h0 (store s') \<and> (\<forall>x. r = Inr x \<longrightarrow> Q x))"

section \<open>Sources of randomness\<close>




section \<open>A concrete environment\<close>

text \<open>
  A small environment on which the definitions can be run: the generator's state is a
  counter, a draw is the scale times the counter, the shuffle reverses the rows, the
  predictor returns the sum of each row as its label and the mixup routine hands back its
  anchor batch and anchor labels.
\<close>

definition ex_env :: "nat env" where
  "ex_env = \<lparr>gauss = (\<lambda>scale g. (scale * real g, Suc g)),
             permutation = (\<lambda>n g. (rev [0..<n], Suc g)),
             mixup_ot1d = (\<lambda>A P LA LP alpha K g. (Some (A, LA), Suc g)),
             ragged_ok = True\<rparr>"

definition ex_model :: "ndarray \<Rightarrow> ndarray option" where
  "ex_model A = Some \<lparr>ncols = 1, rows = map (\<lambda>r. [sum_list r]) (rows A)\<rparr>"

text \<open>A predictor that raises on one batch and is \<open>ex_model\<close> on every other.\<close>

definition ex_model_shy :: "ndarray \<Rightarrow> ndarray option" where
  "ex_model_shy A = (if rows A = [[7], [9]] then None else ex_model A)"

definition ex_state :: "nat runstate" where
  "ex_state = \<lparr>rng = 0, trace = []\<rparr>"

definition ex_X :: ndarray where
  "ex_X = \<lparr>ncols = 1, rows = [[1], [2]]\<rparr>"

definition ex_Y :: ndarray where
  "ex_Y = \<lparr>ncols = 1, rows = [[0], [1]]\<rparr>"

definition ex_U :: ndarray where
  "ex_U = \<lparr>ncols = 1, rows = [[3], [4]]\<rparr>"

text \<open>Labels of two columns, as wide as the aggregate of two augmentations.\<close>

definition ex_Y2 :: ndarray where
  "ex_Y2 = \<lparr>ncols = 2, rows = [[0, 0], [1, 1]]\<rparr>"

text \<open>A label array with one row less than \<open>ex_X\<close>.\<close>

definition ex_Y_short :: ndarray where
  "ex_Y_short = \<lparr>ncols = 1, rows = [[0]]\<rparr>"

text \<open>A store that holds the three example inputs at the addresses 0, 1 and 2.\<close>

definition ex_mstate :: "nat mstate" where
  "ex_mstate = \<lparr>gen = 0, store = [Arr ex_X, Arr ex_Y, Arr ex_U]\<rparr>"





section \<open>Unfolding the definitions on concrete inputs\<close>

lemmas ex_defs = ex_env_def ex_model_def ex_state_def ex_X_def ex_Y_def ex_U_def ex_Y2_def
  ex_Y_short_def

lemmas np_defs = np_random_normal_def add_arr_def np_concatenate_axis1_def sort_axis1_def
  np_concatenate_axis0_def tolist_def is_2d_def np_array_def shuffle_def slice_to_def
  slice_from_def call_mixup_def nrows_def shape_def wf_array_def

lemmas mix_defs = generate_noise_def noisy_augment_def modeln_def mix_augment_def
  mix_labels_def label_rows_def mix_pool_def mix_halves_def mixmatch_ot1d_def

section \<open>Noise and augmentation\<close>

text \<open>The drawn rows are as many and as long as asked for.\<close>



lemma draw_row_length: "length (fst (draw_row g scale m s)) = m"
proof (induction m arbitrary: s)
  case 0
  show ?case by simp
next
  case (Suc m)
  obtain x s1 where x: "g scale s = (x, s1)" by (cases "g scale s")
  obtain xs s2 where xs: "draw_row g scale m s1 = (xs, s2)" by (cases "draw_row g scale m s1")
  have "length xs = m" using Suc [of s1] xs by simp
  then show ?case using x xs by simp
qed

lemma draw_rows_length: "length (fst (draw_rows g scale n m s)) = n"
proof (induction n arbitrary: s)
  case 0
  show ?case by simp
next
  case (Suc n)
  obtain r s1 where r: "draw_row g scale m s = (r, s1)" by (cases "draw_row g scale m s")
  obtain rs s2 where rs: "draw_rows g scale n m s1 = (rs, s2)" by (cases "draw_rows g scale n m s1")
  have "length rs = n" using Suc [of s1] rs by simp
  then show ?case using r rs by simp
qed

lemma draw_rows_width: "list_all (\<lambda>r. length r = m) (fst (draw_rows g scale n m s))"
proof (induction n arbitrary: s)
  case 0
  show ?case by simp
next
  case (Suc n)
  obtain r s1 where r: "draw_row g scale m s = (r, s1)" by (cases "draw_row g scale m s")
  obtain rs s2 where rs: "draw_rows g scale n m s1 = (rs, s2)" by (cases "draw_rows g scale n m s1")
  have "length r = m" using draw_row_length [of g scale m s] r by simp
  moreover have "list_all (\<lambda>r. length r = m) rs" using Suc [of s1] rs by simp
  ultimately show ?case using r rs by simp
qed

lemma np_random_normal_ok:
  assumes "0 \<le> scale"
  shows "\<exists>N g'. np_random_normal e (n, m) scale g = (Inr N, g') \<and> shape N = (n, m) \<and> wf_array N"
proof -
  obtain rs g' where d: "draw_rows (gauss e) scale n m g = (rs, g')"
    by (cases "draw_rows (gauss e) scale n m g")
  have "length rs = n" using draw_rows_length [of "gauss e" scale n m g] d by simp
  moreover have "list_all (\<lambda>r. length r = m) rs"
    using draw_rows_width [of m "gauss e" scale n g] d by simp
  ultimately show ?thesis
    using assms d by (simp add: np_random_normal_def shape_def nrows_def wf_array_def)
qed

lemma np_random_normal_neg:
  "scale < 0 \<Longrightarrow> np_random_normal e sz scale g = (Inl ValueError, g)"
  by (simp add: np_random_normal_def)

lemma generate_noise_ok:
  assumes "0 \<le> stddev"
  shows "\<exists>N s'. generate_noise e X stddev s = (Inr N, s') \<and> shape N = shape X \<and> wf_array N
           \<and> trace s' = trace s"
proof -
  obtain N g' where "np_random_normal e (nrows X, ncols X) stddev (rng s) = (Inr N, g')"
    and "shape N = (nrows X, ncols X)" and "wf_array N"
    using np_random_normal_ok [OF assms, of e "nrows X" "ncols X" "rng s"] by blast
  then show ?thesis by (simp add: generate_noise_def shape_def)
qed

lemma generate_noise_trace:
  "generate_noise e X stddev s = (r, s') \<Longrightarrow> trace s' = trace s"
  by (auto simp: generate_noise_def split: prod.splits)

lemma generate_noise_neg:
  "stddev < 0 \<Longrightarrow> \<exists>s'. generate_noise e X stddev s = (Inl ValueError, s') \<and> trace s' = trace s"
  by (simp add: generate_noise_def np_random_normal_neg)

lemma add_arr_shape: "shape N = shape X \<Longrightarrow> shape (add_arr X N) = shape X"
  by (simp add: add_arr_def shape_def nrows_def)

lemma add_arr_wf:
  assumes "shape N = shape X" "wf_array N" "wf_array X"
  shows "wf_array (add_arr X N)"
proof -
  have "\<forall>p \<in> set (zip (rows X) (rows N)). length (fst p) = ncols X \<and> length (snd p) = ncols X"
    using assms by (auto simp: wf_array_def shape_def list_all_iff dest: set_zip_leftD set_zip_rightD)
  then show ?thesis
    by (auto simp: add_arr_def wf_array_def list_all_iff)
qed

lemma augs_loop_ok:
  assumes "0 \<le> stddev"
  shows "\<exists>augs s'. augs_loop e X stddev k s = (Inr augs, s') \<and> length augs = k
           \<and> list_all (\<lambda>A. shape A = shape X) augs
           \<and> (wf_array X \<longrightarrow> list_all wf_array augs) \<and> trace s' = trace s"
proof (induction k arbitrary: s)
  case 0
  show ?case by simp
next
  case (Suc k)
  obtain N s1 where n: "generate_noise e X stddev s = (Inr N, s1)" "shape N = shape X"
    "wf_array N" "trace s1 = trace s"
    using generate_noise_ok [OF assms, of e X s] by blast
  obtain augs s2 where a: "augs_loop e X stddev k s1 = (Inr augs, s2)" "length augs = k"
    "list_all (\<lambda>A. shape A = shape X) augs" "wf_array X \<longrightarrow> list_all wf_array augs"
    "trace s2 = trace s1"
    using Suc [of s1] by blast
  show ?case using n a by (simp add: add_arr_shape add_arr_wf)
qed

lemma augs_loop_trace:
  "augs_loop e X stddev k s = (r, s') \<Longrightarrow> trace s' = trace s"
proof (induction k arbitrary: s r s')
  case 0
  then show ?case by simp
next
  case (Suc k)
  then show ?case
    by (auto split: prod.splits sum.splits dest: generate_noise_trace)
qed


text \<open>
  Claim C6, as amended. For a non-negative \<open>stddev\<close>, \<open>noisy_augment X stddev K\<close>
  returns a list whose elements all have the shape of \<open>X\<close> (and are arrays when \<open>X\<close> is
  one); the list has exactly \<open>K\<close> elements when \<open>K \<ge> 1\<close>, and it is the empty list,
  returned without any error, when \<open>K < 1\<close>.
\<close>

theorem noisy_augment_length:
  assumes "0 \<le> stddev"
  shows "\<exists>augs s'. noisy_augment e X stddev K s = (Inr augs, s')
           \<and> list_all (\<lambda>A. shape A = shape X) augs
           \<and> (wf_array X \<longrightarrow> list_all wf_array augs)
           \<and> (if 1 \<le> K then int (length augs) = K else augs = [])"
proof -
  obtain augs s' where a: "augs_loop e X stddev (nat K) s = (Inr augs, s')"
    "length augs = nat K" "list_all (\<lambda>A. shape A = shape X) augs"
    "wf_array X \<longrightarrow> list_all wf_array augs"
    using augs_loop_ok [OF assms, of e X "nat K" s] by blast
  then show ?thesis by (auto simp: noisy_augment_def)
qed

theorem noisy_augment_length_witness:
  "(0::real) \<le> 1 \<and> wf_array ex_X \<and> (1::int) \<le> 2
   \<and> noisy_augment ex_env ex_X 1 2 ex_state
       = (Inr [\<lparr>ncols = 1, rows = [[1], [3]]\<rparr>, \<lparr>ncols = 1, rows = [[3], [5]]\<rparr>],
          \<lparr>rng = 4, trace = []\<rparr>)
   \<and> (\<exists>augs s'. noisy_augment ex_env ex_X 1 2 ex_state = (Inr augs, s')
           \<and> list_all (\<lambda>A. shape A = shape ex_X) augs
           \<and> list_all wf_array augs \<and> int (length augs) = 2)"
proof -
  have h: "(0::real) \<le> 1" by simp
  have w: "wf_array ex_X" by (simp add: ex_X_def wf_array_def)
  have v: "noisy_augment ex_env ex_X 1 2 ex_state
       = (Inr [\<lparr>ncols = 1, rows = [[1], [3]]\<rparr>, \<lparr>ncols = 1, rows = [[3], [5]]\<rparr>],
          \<lparr>rng = 4, trace = []\<rparr>)"
    by (simp add: ex_defs np_defs mix_defs eval_nat_numeral)
  show ?thesis
    using h w v noisy_augment_length [OF h, of ex_env ex_X 2 ex_state] by simp
qed

text \<open>
  Claim C6 as stated asks for a failure when \<open>K < 1\<close>. On \<open>K = 0\<close> the comprehension
  runs over the empty \<^verbatim>\<open>range(0)\<close> and the function returns the empty list.
\<close>

theorem noisy_augment_zero_counterexample:
  "(0::int) < 1 \<and> noisy_augment ex_env ex_X 1 0 ex_state = (Inr [], ex_state)"
  by (simp add: noisy_augment_def)

section \<open>The augmentation stage\<close>

text \<open>Neither noise generation nor augmentation calls an external collaborator.\<close>

lemma noisy_augment_trace:
  "noisy_augment e X stddev K s = (r, s') \<Longrightarrow> trace s' = trace s"
  by (simp add: noisy_augment_def augs_loop_trace)

lemma mix_augment_trace:
  assumes "mix_augment e X U stddev naug s = (r, s')"
  shows "trace s' = trace s"
proof -
  obtain r1 s1 where g: "generate_noise e X stddev s = (r1, s1)"
    by (cases "generate_noise e X stddev s")
  have t1: "trace s1 = trace s" using g by (rule generate_noise_trace)
  show ?thesis
  proof (cases r1)
    case (Inl err)
    then show ?thesis using assms g t1 by (simp add: mix_augment_def)
  next
    case (Inr N)
    obtain r2 s2 where a: "noisy_augment e U stddev naug s1 = (r2, s2)"
      by (cases "noisy_augment e U stddev naug s1")
    have t2: "trace s2 = trace s1" using a by (rule noisy_augment_trace)
    show ?thesis using assms g Inr a t1 t2
      by (auto simp: mix_augment_def Let_def split: sum.splits if_splits)
  qed
qed

lemma mix_augment_Inr:
  assumes "mix_augment e X U stddev naug s = (Inr (Xhat, Uaugs, Uhat), s1)"
  shows "0 \<le> stddev \<and> 1 \<le> naug \<and> int (length Uaugs) = naug \<and> Uaugs \<noteq> [] \<and> Uhat = last Uaugs
         \<and> shape Xhat = shape X \<and> list_all (\<lambda>A. shape A = shape U) Uaugs
         \<and> (wf_array X \<longrightarrow> wf_array Xhat) \<and> (wf_array U \<longrightarrow> list_all wf_array Uaugs)
         \<and> trace s1 = trace s"
proof -
  have sd: "0 \<le> stddev"
  proof (rule ccontr)
    assume "\<not> 0 \<le> stddev"
    then have "stddev < 0" by simp
    then obtain s' where "generate_noise e X stddev s = (Inl ValueError, s')"
      using generate_noise_neg [of stddev e X s] by blast
    then show False using assms by (simp add: mix_augment_def)
  qed
  obtain N s0 where n: "generate_noise e X stddev s = (Inr N, s0)" "shape N = shape X"
    "wf_array N"
    using generate_noise_ok [OF sd, of e X s] by blast
  obtain augs s2 where a: "augs_loop e U stddev (nat naug) s0 = (Inr augs, s2)"
    "length augs = nat naug" "list_all (\<lambda>A. shape A = shape U) augs"
    "wf_array U \<longrightarrow> list_all wf_array augs"
    using augs_loop_ok [OF sd, of e U "nat naug" s0] by blast
  have r: "augs \<noteq> [] \<and> Xhat = add_arr X N \<and> Uaugs = augs \<and> Uhat = last augs"
    using assms n a by (auto simp: mix_augment_def noisy_augment_def Let_def split: if_splits)
  then have "1 \<le> naug \<and> int (length Uaugs) = naug" using a(2) by (cases augs) auto
  moreover have "trace s1 = trace s" using assms by (rule mix_augment_trace)
  ultimately show ?thesis using sd r n a by (simp add: add_arr_shape add_arr_wf)
qed

lemma mix_augment_ok:
  assumes "0 \<le> stddev" "1 \<le> naug"
  shows "\<exists>Xhat Uaugs s1. mix_augment e X U stddev naug s = (Inr (Xhat, Uaugs, last Uaugs), s1)"
proof -
  obtain N s0 where n: "generate_noise e X stddev s = (Inr N, s0)"
    using generate_noise_ok [OF assms(1), of e X s] by blast
  obtain augs s2 where a: "augs_loop e U stddev (nat naug) s0 = (Inr augs, s2)"
    "length augs = nat naug"
    using augs_loop_ok [OF assms(1), of e U "nat naug" s0] by blast
  have "augs \<noteq> []" using a(2) assms(2) by auto
  then show ?thesis using n a by (simp add: mix_augment_def noisy_augment_def Let_def)
qed

lemma mix_augment_no_copies:
  assumes "naug \<le> 0"
  shows "\<exists>err s1. mix_augment e X U stddev naug s = (Inl err, s1) \<and> trace s1 = trace s
           \<and> (0 \<le> stddev \<longrightarrow> err = IndexError)"
proof (cases "0 \<le> stddev")
  case True
  obtain N s0 where n: "generate_noise e X stddev s = (Inr N, s0)" "trace s0 = trace s"
    using generate_noise_ok [OF True, of e X s] by blast
  have "nat naug = 0" using assms by simp
  then show ?thesis using n by (simp add: mix_augment_def noisy_augment_def Let_def)
next
  case False
  then have "stddev < 0" by simp
  then obtain s' where "generate_noise e X stddev s = (Inl ValueError, s')" "trace s' = trace s"
    using generate_noise_neg [of stddev e X s] by blast
  then show ?thesis using False by (simp add: mix_augment_def)
qed

text \<open>
  Claim C10. With \<open>naug = 0\<close> the call returns no value: it fails before the predictor,
  the shuffle or the mixup routine is called (the log of external calls is unchanged), and
  for a non-negative \<open>stddev\<close> the failure is the \<^verbatim>\<open>IndexError\<close> of \<^verbatim>\<open>Uaugs[-1]\<close> on the
  empty list of copies. (A negative \<open>stddev\<close> fails earlier, at line 87, inside numpy.)
\<close>

theorem mix_no_augmentation_index_error:
  "\<exists>err s'. mixmatch_ot1d e model X Y U stddev alpha K 0 s = (Inl err, s')
       \<and> trace s' = trace s \<and> (0 \<le> stddev \<longrightarrow> err = IndexError)"
proof -
  obtain err s1 where "mix_augment e X U stddev 0 s = (Inl err, s1)" "trace s1 = trace s"
    "0 \<le> stddev \<longrightarrow> err = IndexError"
    using mix_augment_no_copies [of 0 e X U stddev s] by auto
  then show ?thesis by (simp add: mixmatch_ot1d_def)
qed

theorem mix_no_augmentation_index_error_witness:
  "(0::real) \<le> 1 \<and> mixmatch_ot1d ex_env ex_model ex_X ex_Y ex_U 1 0.75 3 0 ex_state
      = (Inl IndexError, \<lparr>rng = 2, trace = []\<rparr>)"
proof -
  have "\<exists>err s'. mixmatch_ot1d ex_env ex_model ex_X ex_Y ex_U 1 0.75 3 0 ex_state = (Inl err, s')
       \<and> trace s' = trace ex_state \<and> ((0::real) \<le> 1 \<longrightarrow> err = IndexError)"
    by (rule mix_no_augmentation_index_error)
  moreover have "mixmatch_ot1d ex_env ex_model ex_X ex_Y ex_U 1 0.75 3 0 ex_state
      = (Inl IndexError, \<lparr>rng = 2, trace = []\<rparr>)"
    by (simp add: ex_defs np_defs mix_defs eval_nat_numeral)
  ultimately show ?thesis by simp
qed

section \<open>The pseudo-label stage\<close>

text \<open>
  Every call of the predictor is logged, in the order of the copies; a run of
  \<open>map_modeln\<close> that returns has called it on every copy.
\<close>

lemma modeln_result:
  "modeln model x s = (r, s') \<Longrightarrow>
     s' = s\<lparr>trace := trace s @ [PredictCall x]\<rparr>
     \<and> r = (case model x of None \<Rightarrow> Inl PropagatedFailure | Some P \<Rightarrow> Inr P)"
  by (auto simp: modeln_def Let_def split: option.splits)

lemma map_modeln_Inr:
  "map_modeln model xs s = (Inr Ps, s') \<Longrightarrow>
     s' = s\<lparr>trace := trace s @ map PredictCall xs\<rparr> \<and> list_all2 (\<lambda>x P. model x = Some P) xs Ps"
proof (induction xs arbitrary: s Ps s')
  case Nil
  then show ?case by simp
next
  case (Cons x xs)
  obtain r1 s1 where m: "modeln model x s = (r1, s1)" by (cases "modeln model x s")
  have s1: "s1 = s\<lparr>trace := trace s @ [PredictCall x]\<rparr>"
    and r1: "r1 = (case model x of None \<Rightarrow> Inl PropagatedFailure | Some P \<Rightarrow> Inr P)"
    using modeln_result [OF m] by simp_all
  from Cons.prems m obtain P where P: "r1 = Inr P"
    by (cases r1) auto
  from Cons.prems m P obtain Qs s2 where rest: "map_modeln model xs s1 = (Inr Qs, s2)"
    and ps: "Ps = P # Qs" and s2: "s' = s2"
    by (auto split: prod.splits sum.splits)
  have ih: "s2 = s1\<lparr>trace := trace s1 @ map PredictCall xs\<rparr>"
    "list_all2 (\<lambda>x P. model x = Some P) xs Qs"
    using Cons.IH [OF rest] by simp_all
  have "model x = Some P" using r1 P by (cases "model x") auto
  then show ?case using ih s1 ps s2 by simp
qed

lemma map_modeln_trace:
  "map_modeln model xs s = (r, s') \<Longrightarrow>
     rng s' = rng s \<and> (\<exists>k \<le> length xs. trace s' = trace s @ map PredictCall (take k xs))"
proof (induction xs arbitrary: s r s')
  case Nil
  then show ?case by simp
next
  case (Cons x xs)
  obtain r1 s1 where m: "modeln model x s = (r1, s1)" by (cases "modeln model x s")
  have s1: "s1 = s\<lparr>trace := trace s @ [PredictCall x]\<rparr>"
    using modeln_result [OF m] by simp
  show ?case
  proof (cases r1)
    case (Inl err)
    then have "s' = s1" using Cons.prems m by simp
    then have "rng s' = rng s \<and> trace s' = trace s @ map PredictCall (take 1 (x # xs))"
      using s1 by simp
    then show ?thesis by (metis One_nat_def Suc_leI length_Cons zero_less_Suc)
  next
    case (Inr P)
    obtain r2 s2 where rest: "map_modeln model xs s1 = (r2, s2)"
      by (cases "map_modeln model xs s1")
    have s': "s' = s2" using Cons.prems m Inr rest by (auto split: sum.splits)
    obtain k where k: "k \<le> length xs" "trace s2 = trace s1 @ map PredictCall (take k xs)"
      and g: "rng s2 = rng s1"
      using Cons.IH [OF rest] by blast
    have "Suc k \<le> length (x # xs)
          \<and> trace s' = trace s @ map PredictCall (take (Suc k) (x # xs))"
      using k s1 s' by simp
    moreover have "rng s' = rng s" using g s1 s' by simp
    ultimately show ?thesis by blast
  qed
qed

lemma map_modeln_ok:
  "list_all (\<lambda>x. model x \<noteq> None) xs \<Longrightarrow> \<exists>Ps s'. map_modeln model xs s = (Inr Ps, s')"
proof (induction xs arbitrary: s)
  case Nil
  show ?case by simp
next
  case (Cons x xs)
  then obtain P where P: "model x = Some P" by auto
  obtain Ps s2 where "map_modeln model xs (s\<lparr>trace := trace s @ [PredictCall x]\<rparr>) = (Inr Ps, s2)"
    using Cons by fastforce
  then show ?case using P by (simp add: modeln_def)
qed

text \<open>The side-by-side concatenation and the row-wise sort.\<close>

lemma hcat_length:
  "As \<noteq> [] \<Longrightarrow> list_all (\<lambda>B. nrows B = n) As \<Longrightarrow> length (hcat As) = n"
  by (induction As rule: hcat.induct) (auto simp: nrows_def)

lemma hcat_width:
  "list_all wf_array As \<Longrightarrow>
     list_all (\<lambda>r. length r = sum_list (map ncols As)) (hcat As)"
proof (induction As rule: hcat.induct)
  case 1
  show ?case by simp
next
  case (2 A)
  then show ?case by (simp add: wf_array_def)
next
  case (3 A B Bs)
  have a: "\<forall>r \<in> set (rows A). length r = ncols A"
    using 3(2) by (simp add: wf_array_def list_all_iff)
  have b: "\<forall>r \<in> set (hcat (B # Bs)). length r = sum_list (map ncols (B # Bs))"
    using 3 by (simp add: list_all_iff)
  have "\<forall>p \<in> set (zip (rows A) (hcat (B # Bs))).
          length (fst p @ snd p) = ncols A + sum_list (map ncols (B # Bs))"
  proof
    fix p assume p: "p \<in> set (zip (rows A) (hcat (B # Bs)))"
    obtain x y where xy: "p = (x, y)" by (cases p)
    have "x \<in> set (rows A)" using p xy by (auto dest: set_zip_leftD)
    moreover have "y \<in> set (hcat (B # Bs))" using p xy by (auto dest: set_zip_rightD)
    ultimately have "fst p \<in> set (rows A)" "snd p \<in> set (hcat (B # Bs))"
      using xy by simp_all
    then show "length (fst p @ snd p) = ncols A + sum_list (map ncols (B # Bs))"
      using a b by simp
  qed
  then show ?case by (auto simp: list_all_iff)
qed

lemma sum_ncols_columns:
  "list_all (\<lambda>P. ncols P = c) Ps \<Longrightarrow> sum_list (map ncols Ps) = length Ps * c"
  by (induction Ps) auto

lemma np_concatenate_axis1_Inr:
  assumes "np_concatenate_axis1 Ps = Inr Q"
  shows "Ps \<noteq> [] \<and> nrows Q = nrows (hd Ps) \<and> ncols Q = sum_list (map ncols Ps)
         \<and> list_all (\<lambda>B. nrows B = nrows (hd Ps)) Ps \<and> rows Q = hcat Ps"
proof (cases Ps)
  case Nil
  then show ?thesis using assms by (simp add: np_concatenate_axis1_def)
next
  case (Cons A Bs)
  then have all: "list_all (\<lambda>B. nrows B = nrows A) (A # Bs)"
    and q: "Q = \<lparr>ncols = sum_list (map ncols Ps), rows = hcat Ps\<rparr>"
    using assms by (auto simp: np_concatenate_axis1_def split: if_splits)
  have "length (hcat (A # Bs)) = nrows A" using all by (intro hcat_length) simp_all
  then show ?thesis using Cons all q by (simp add: nrows_def)
qed

lemma np_concatenate_axis1_ok:
  assumes "Ps \<noteq> []" "list_all (\<lambda>B. nrows B = n) Ps"
  shows "\<exists>Q. np_concatenate_axis1 Ps = Inr Q"
proof (cases Ps)
  case Nil
  then show ?thesis using assms by simp
next
  case (Cons A Bs)
  then have "list_all (\<lambda>B. nrows B = nrows A) Bs" using assms(2) by (simp add: list_all_iff)
  then show ?thesis using Cons by (simp add: np_concatenate_axis1_def)
qed

lemma sort_axis1_props:
  "nrows (sort_axis1 Q) = nrows Q" "ncols (sort_axis1 Q) = ncols Q"
  "list_all sorted (rows (sort_axis1 Q))"
  "wf_array Q \<Longrightarrow> wf_array (sort_axis1 Q)"
  by (simp_all add: sort_axis1_def nrows_def wf_array_def list_all_iff)

lemma mix_labels_Inr:
  assumes "mix_labels model Uaugs s = (Inr Q, s1)"
  shows "\<exists>preds Q0. list_all2 (\<lambda>x P. model x = Some P) Uaugs preds
           \<and> np_concatenate_axis1 preds = Inr Q0 \<and> Q = sort_axis1 Q0
           \<and> s1 = s\<lparr>trace := trace s @ map PredictCall Uaugs\<rparr>"
proof -
  obtain r s' where m: "map_modeln model Uaugs s = (r, s')"
    by (cases "map_modeln model Uaugs s")
  then obtain preds where r: "r = Inr preds" using assms
    by (cases r) (auto simp: mix_labels_def)
  obtain Q0 where q: "np_concatenate_axis1 preds = Inr Q0" "Q = sort_axis1 Q0" "s1 = s'"
    using assms m r by (auto simp: mix_labels_def split: sum.splits)
  show ?thesis using map_modeln_Inr [of model Uaugs s preds s'] m r q by blast
qed

lemma mix_labels_trace:
  assumes "mix_labels model Uaugs s = (r, s1)"
  shows "rng s1 = rng s \<and> (\<exists>k \<le> length Uaugs. trace s1 = trace s @ map PredictCall (take k Uaugs))"
proof -
  obtain r0 s' where m: "map_modeln model Uaugs s = (r0, s')"
    by (cases "map_modeln model Uaugs s")
  have "s1 = s'" using assms m by (auto simp: mix_labels_def split: sum.splits)
  then show ?thesis using map_modeln_trace [OF m] by simp
qed

text \<open>The shape of the aggregate when each prediction is a column of labels.\<close>

lemma label_columns_shape:
  assumes l2: "list_all2 (\<lambda>x P. model x = Some P) Uaugs preds"
    and sh: "list_all (\<lambda>A. shape A = shape U) Uaugs"
    and col: "\<And>A P. shape A = shape U \<Longrightarrow> model A = Some P \<Longrightarrow> shape P = (nrows A, c) \<and> wf_array P"
  shows "list_all (\<lambda>P. nrows P = nrows U) preds \<and> list_all (\<lambda>P. ncols P = c) preds
         \<and> list_all wf_array preds \<and> length preds = length Uaugs"
proof -
  have "\<forall>P \<in> set preds. shape P = (nrows U, c) \<and> wf_array P"
  proof
    fix P assume "P \<in> set preds"
    then obtain i where i: "i < length preds" "P = preds ! i"
      by (auto simp: in_set_conv_nth)
    have len: "length Uaugs = length preds" using l2 by (rule list_all2_lengthD)
    have "model (Uaugs ! i) = Some P" using l2 i by (simp add: list_all2_conv_all_nth)
    moreover have "Uaugs ! i \<in> set Uaugs" using i len by simp
    ultimately obtain A where "A \<in> set Uaugs" "model A = Some P" by blast
    moreover from this sh have "shape A = shape U" by (simp add: list_all_iff)
    ultimately show "shape P = (nrows U, c) \<and> wf_array P"
      using col [of A P] by (simp add: shape_def)
  qed
  then show ?thesis using l2 by (auto simp: list_all_iff shape_def dest: list_all2_lengthD)
qed

lemma mix_labels_ok:
  assumes ne: "Uaugs \<noteq> []"
    and sh: "list_all (\<lambda>A. shape A = shape U) Uaugs"
    and col: "\<And>A. shape A = shape U \<Longrightarrow>
                \<exists>P. model A = Some P \<and> shape P = (nrows A, c) \<and> wf_array P"
  shows "\<exists>Q s2. mix_labels model Uaugs s = (Inr Q, s2) \<and> nrows Q = nrows U
           \<and> ncols Q = length Uaugs * c \<and> wf_array Q \<and> list_all sorted (rows Q)"
proof -
  have "list_all (\<lambda>x. model x \<noteq> None) Uaugs"
    using sh col by (fastforce simp: list_all_iff)
  then obtain preds s2 where m: "map_modeln model Uaugs s = (Inr preds, s2)"
    using map_modeln_ok [of model Uaugs s] by blast
  have l2: "list_all2 (\<lambda>x P. model x = Some P) Uaugs preds"
    using map_modeln_Inr [OF m] by simp
  have col': "\<And>A P. shape A = shape U \<Longrightarrow> model A = Some P \<Longrightarrow> shape P = (nrows A, c) \<and> wf_array P"
    using col by fastforce
  have p: "list_all (\<lambda>P. nrows P = nrows U) preds" "list_all (\<lambda>P. ncols P = c) preds"
    "list_all wf_array preds" "length preds = length Uaugs"
    using label_columns_shape [OF l2 sh col'] by simp_all
  have pne: "preds \<noteq> []" using p(4) ne by auto
  obtain Q0 where q0: "np_concatenate_axis1 preds = Inr Q0"
    using np_concatenate_axis1_ok [OF pne p(1)] by blast
  have c: "nrows Q0 = nrows (hd preds)" "ncols Q0 = sum_list (map ncols preds)"
    "rows Q0 = hcat preds"
    using np_concatenate_axis1_Inr [OF q0] by simp_all
  have "nrows (hd preds) = nrows U" using p(1) pne by (cases preds) simp_all
  then have n: "nrows Q0 = nrows U" using c(1) by simp
  have w: "ncols Q0 = length Uaugs * c" using c(2) sum_ncols_columns [OF p(2)] p(4) by simp
  have "wf_array Q0" using hcat_width [OF p(3)] c(2,3) by (simp add: wf_array_def)
  then show ?thesis
    using m q0 n w by (simp add: mix_labels_def sort_axis1_props)
qed

text \<open>
  Claim C3. For \<open>naug \<ge> 1\<close> (and a non-negative \<open>stddev\<close>) and a predictor that returns
  an \<open>(n, 1)\<close> column of labels for each copy of \<open>U\<close>, the run reaches line 100 with an
  aggregate \<open>Q\<close> of \<open>n\<close> rows and \<open>naug\<close> columns whose rows are all in ascending order,
  and this \<open>Q\<close> is the one the rest of \<^verbatim>\<open>mixmatch_ot1d\<close> goes on with.
\<close>

theorem mix_labels_sorted:
  assumes sd: "0 \<le> stddev" and na: "1 \<le> naug"
    and col: "\<And>A. shape A = shape U \<Longrightarrow>
                \<exists>P. model A = Some P \<and> shape P = (nrows A, 1) \<and> wf_array P"
  shows "\<exists>Xhat Uaugs Uhat s1 Q s2.
           mix_augment e X U stddev naug s = (Inr (Xhat, Uaugs, Uhat), s1)
         \<and> mix_labels model Uaugs s1 = (Inr Q, s2)
         \<and> mixmatch_ot1d e model X Y U stddev alpha K naug s
             = (case mix_pool e Xhat Uhat Y Q of
                  Inl err \<Rightarrow> (Inl err, s2)
                | Inr (W, Wlabels) \<Rightarrow> mix_halves e Xhat Uhat Y Q W Wlabels alpha K s2)
         \<and> nrows Q = nrows U \<and> int (ncols Q) = naug \<and> wf_array Q
         \<and> list_all sorted (rows Q)"
proof -
  obtain Xhat Uaugs s1 where a: "mix_augment e X U stddev naug s = (Inr (Xhat, Uaugs, last Uaugs), s1)"
    using mix_augment_ok [OF sd na, of e X U s] by blast
  have f: "int (length Uaugs) = naug" "Uaugs \<noteq> []" "list_all (\<lambda>A. shape A = shape U) Uaugs"
    using mix_augment_Inr [OF a] by simp_all
  obtain Q s2 where q: "mix_labels model Uaugs s1 = (Inr Q, s2)" "nrows Q = nrows U"
    "ncols Q = length Uaugs * 1" "wf_array Q" "list_all sorted (rows Q)"
    using mix_labels_ok [OF f(2) f(3) col, of s1] by blast
  have "mixmatch_ot1d e model X Y U stddev alpha K naug s
             = (case mix_pool e Xhat (last Uaugs) Y Q of
                  Inl err \<Rightarrow> (Inl err, s2)
                | Inr (W, Wlabels) \<Rightarrow> mix_halves e Xhat (last Uaugs) Y Q W Wlabels alpha K s2)"
    using a q(1) by (simp add: mixmatch_ot1d_def)
  moreover have "int (ncols Q) = naug" using q(3) f(1) by simp
  ultimately show ?thesis using a q by blast
qed

text \<open>The example predictor returns a column of one label for each row.\<close>

lemma ex_model_column:
  "\<exists>P. ex_model A = Some P \<and> shape P = (nrows A, 1) \<and> wf_array P"
  by (simp add: ex_model_def shape_def nrows_def wf_array_def list_all_iff)

theorem mix_labels_sorted_witness:
  "(0::real) \<le> 1 \<and> (1::int) \<le> 2
   \<and> (\<forall>A. \<exists>P. ex_model A = Some P \<and> shape P = (nrows A, 1) \<and> wf_array P)
   \<and> mix_labels ex_model [\<lparr>ncols = 1, rows = [[9], [2]]\<rparr>, \<lparr>ncols = 1, rows = [[4], [7]]\<rparr>]
        \<lparr>rng = 6, trace = []\<rparr>
      = (Inr \<lparr>ncols = 2, rows = [[4, 9], [2, 7]]\<rparr>,
         \<lparr>rng = 6, trace = [PredictCall \<lparr>ncols = 1, rows = [[9], [2]]\<rparr>,
                            PredictCall \<lparr>ncols = 1, rows = [[4], [7]]\<rparr>]\<rparr>)
   \<and> (\<exists>Xhat Uaugs Uhat s1 Q s2.
           mix_augment ex_env ex_X ex_U 1 2 ex_state = (Inr (Xhat, Uaugs, Uhat), s1)
         \<and> mix_labels ex_model Uaugs s1 = (Inr Q, s2)
         \<and> nrows Q = nrows ex_U \<and> int (ncols Q) = 2 \<and> wf_array Q
         \<and> list_all sorted (rows Q))"
proof -
  have h1: "(0::real) \<le> 1" and h2: "(1::int) \<le> 2" by simp_all
  have h3: "\<And>A. shape A = shape ex_U \<Longrightarrow>
                \<exists>P. ex_model A = Some P \<and> shape P = (nrows A, 1) \<and> wf_array P"
    by (rule ex_model_column)
  have v: "mix_labels ex_model [\<lparr>ncols = 1, rows = [[9], [2]]\<rparr>, \<lparr>ncols = 1, rows = [[4], [7]]\<rparr>]
        \<lparr>rng = 6, trace = []\<rparr>
      = (Inr \<lparr>ncols = 2, rows = [[4, 9], [2, 7]]\<rparr>,
         \<lparr>rng = 6, trace = [PredictCall \<lparr>ncols = 1, rows = [[9], [2]]\<rparr>,
                            PredictCall \<lparr>ncols = 1, rows = [[4], [7]]\<rparr>]\<rparr>)"
    by (simp add: ex_defs np_defs mix_defs)
  show ?thesis
    using h1 h2 v ex_model_column
      mix_labels_sorted [where e = ex_env and X = ex_X and Y = ex_Y and U = ex_U
        and model = ex_model and stddev = 1 and naug = 2 and alpha = "0.75" and K = 3
        and s = ex_state, OF h1 h2 h3]
    by blast
qed

section \<open>The pool, the shuffle and the two mixup calls\<close>

lemma mix_pool_Inr:
  assumes "mix_pool e Xhat Uhat Y Q = Inr (W, Wlabels)"
  shows "W = \<lparr>ncols = ncols Xhat, rows = rows Xhat @ rows Uhat\<rparr> \<and> Wlabels = label_rows Y Q
         \<and> ncols Xhat = ncols Uhat \<and> nrows W = nrows Xhat + nrows Uhat
         \<and> length Wlabels = nrows Y + nrows Q"
  using assms
  by (auto simp: mix_pool_def np_concatenate_axis0_def np_array_def label_rows_def tolist_def
      nrows_def split: if_splits sum.splits)

lemma mix_pool_Inl:
  "mix_pool e Xhat Uhat Y Q = Inl err \<Longrightarrow> err = ValueError"
  by (auto simp: mix_pool_def np_concatenate_axis0_def np_array_def split: if_splits sum.splits)

lemma shuffle_result:
  assumes "shuffle e W Wlabels s = (r, s')"
  shows "trace s' = trace s @ [ShuffleCall W Wlabels]"
    and "nrows W \<noteq> length Wlabels \<Longrightarrow> r = Inl ValueError"
    and "r = Inr (W', Wlabels') \<Longrightarrow> nrows W = length Wlabels"
  using assms by (auto simp: shuffle_def Let_def split: if_splits prod.splits)

lemma call_mixup_trace:
  "call_mixup e A P LA LP alpha K s = (r, s') \<Longrightarrow>
     trace s' = trace s @ [MixupCall A P LA LP alpha K]"
  by (auto simp: call_mixup_def Let_def split: prod.splits option.splits)

lemma mix_halves_Inr:
  assumes "mix_halves e Xhat Uhat Y Q W Wlabels alpha K s = (Inr res, s')"
  obtains W' Wlabels' s3 Xprime Yprime s4 Uprime Qprime where
    "shuffle e W Wlabels s = (Inr (W', Wlabels'), s3)"
    "call_mixup e Xhat (slice_to (nrows W' div 2) W') Y (take (nrows W' div 2) Wlabels') alpha K s3
       = (Inr (Xprime, Yprime), s4)"
    "call_mixup e Uhat (slice_from (nrows W' div 2) W') Q (drop (nrows W' div 2) Wlabels') alpha K s4
       = (Inr (Uprime, Qprime), s')"
    "res = (Xprime, Yprime, Uprime, Qprime)"
proof -
  obtain r1 s3 where sh: "shuffle e W Wlabels s = (r1, s3)" by (cases "shuffle e W Wlabels s")
  then obtain W' Wlabels' where r1: "r1 = Inr (W', Wlabels')"
    using assms by (cases r1) (auto simp: mix_halves_def)
  let ?l = "nrows W' div 2"
  obtain r2 s4 where c1: "call_mixup e Xhat (slice_to ?l W') Y (take ?l Wlabels') alpha K s3 = (r2, s4)"
    by (cases "call_mixup e Xhat (slice_to ?l W') Y (take ?l Wlabels') alpha K s3")
  then obtain Xprime Yprime where r2: "r2 = Inr (Xprime, Yprime)"
    using assms sh r1 by (cases r2) (auto simp: mix_halves_def Let_def)
  obtain r3 s5 where c2: "call_mixup e Uhat (slice_from ?l W') Q (drop ?l Wlabels') alpha K s4 = (r3, s5)"
    by (cases "call_mixup e Uhat (slice_from ?l W') Q (drop ?l Wlabels') alpha K s4")
  then obtain Uprime Qprime where r3: "r3 = Inr (Uprime, Qprime)"
    using assms sh r1 c1 r2 by (cases r3) (auto simp: mix_halves_def Let_def)
  have "res = (Xprime, Yprime, Uprime, Qprime) \<and> s5 = s'"
    using assms sh r1 c1 r2 c2 r3 by (simp add: mix_halves_def Let_def)
  then show ?thesis using that sh r1 c1 r2 c2 r3 by blast
qed

lemma mix_halves_mismatch:
  "nrows W \<noteq> length Wlabels \<Longrightarrow>
     mix_halves e Xhat Uhat Y Q W Wlabels alpha K s
       = (Inl ValueError, s\<lparr>trace := trace s @ [ShuffleCall W Wlabels]\<rparr>)"
  by (simp add: mix_halves_def shuffle_def Let_def)

lemma mixmatch_ot1d_Inr:
  assumes "mixmatch_ot1d e model X Y U stddev alpha K naug s = (Inr res, s')"
  obtains Xhat Uaugs Uhat s1 Q s2 W Wlabels where
    "mix_augment e X U stddev naug s = (Inr (Xhat, Uaugs, Uhat), s1)"
    "mix_labels model Uaugs s1 = (Inr Q, s2)"
    "mix_pool e Xhat Uhat Y Q = Inr (W, Wlabels)"
    "mix_halves e Xhat Uhat Y Q W Wlabels alpha K s2 = (Inr res, s')"
proof -
  obtain r1 s1 where a: "mix_augment e X U stddev naug s = (r1, s1)"
    by (cases "mix_augment e X U stddev naug s")
  then obtain Xhat Uaugs Uhat where r1: "r1 = Inr (Xhat, Uaugs, Uhat)"
    using assms by (cases r1) (auto simp: mixmatch_ot1d_def)
  obtain r2 s2 where l: "mix_labels model Uaugs s1 = (r2, s2)"
    by (cases "mix_labels model Uaugs s1")
  then obtain Q where r2: "r2 = Inr Q"
    using assms a r1 by (cases r2) (auto simp: mixmatch_ot1d_def)
  obtain W Wlabels where p: "mix_pool e Xhat Uhat Y Q = Inr (W, Wlabels)"
    using assms a r1 l r2 by (cases "mix_pool e Xhat Uhat Y Q") (auto simp: mixmatch_ot1d_def)
  have "mix_halves e Xhat Uhat Y Q W Wlabels alpha K s2 = (Inr res, s')"
    using assms a r1 l r2 p by (simp add: mixmatch_ot1d_def)
  then show ?thesis using that a r1 l r2 p by blast
qed

lemma mix_augment_copies:
  assumes "mix_augment e X U stddev naug s = (Inr (Xhat, Uaugs, Uhat), s1)"
  shows "\<exists>N s0. generate_noise e X stddev s = (Inr N, s0) \<and> Xhat = add_arr X N
           \<and> noisy_augment e U stddev naug s0 = (Inr Uaugs, s1) \<and> Uhat = last Uaugs"
proof -
  obtain r0 s0 where g: "generate_noise e X stddev s = (r0, s0)"
    by (cases "generate_noise e X stddev s")
  then obtain N where r0: "r0 = Inr N" using assms by (cases r0) (auto simp: mix_augment_def)
  obtain r1 s1' where a: "noisy_augment e U stddev naug s0 = (r1, s1')"
    by (cases "noisy_augment e U stddev naug s0")
  then obtain augs where r1: "r1 = Inr augs"
    using assms g r0 by (cases r1) (auto simp: mix_augment_def Let_def)
  show ?thesis using assms g r0 a r1
    by (auto simp: mix_augment_def Let_def split: if_splits)
qed

text \<open>The log of a run that returns: the predictions, the shuffle, the two mixup calls.\<close>

lemma mixmatch_ot1d_run:
  assumes "mixmatch_ot1d e model X Y U stddev alpha K naug s = (Inr res, s')"
  obtains Xhat Uaugs Uhat s1 Q s2 W Wlabels W' Wlabels' s3 Xprime Yprime s4 Uprime Qprime where
    "mix_augment e X U stddev naug s = (Inr (Xhat, Uaugs, Uhat), s1)"
    "mix_labels model Uaugs s1 = (Inr Q, s2)"
    "mix_pool e Xhat Uhat Y Q = Inr (W, Wlabels)"
    "shuffle e W Wlabels s2 = (Inr (W', Wlabels'), s3)"
    "call_mixup e Xhat (slice_to (nrows W' div 2) W') Y (take (nrows W' div 2) Wlabels') alpha K s3
       = (Inr (Xprime, Yprime), s4)"
    "call_mixup e Uhat (slice_from (nrows W' div 2) W') Q (drop (nrows W' div 2) Wlabels') alpha K s4
       = (Inr (Uprime, Qprime), s')"
    "res = (Xprime, Yprime, Uprime, Qprime)"
    "trace s2 = trace s @ map PredictCall Uaugs"
    "trace s3 = trace s2 @ [ShuffleCall W Wlabels]"
    "trace s' = trace s3 @
       [MixupCall Xhat (slice_to (nrows W' div 2) W') Y (take (nrows W' div 2) Wlabels') alpha K,
        MixupCall Uhat (slice_from (nrows W' div 2) W') Q (drop (nrows W' div 2) Wlabels') alpha K]"
proof -
  obtain Xhat Uaugs Uhat s1 Q s2 W Wlabels where st:
    "mix_augment e X U stddev naug s = (Inr (Xhat, Uaugs, Uhat), s1)"
    "mix_labels model Uaugs s1 = (Inr Q, s2)"
    "mix_pool e Xhat Uhat Y Q = Inr (W, Wlabels)"
    "mix_halves e Xhat Uhat Y Q W Wlabels alpha K s2 = (Inr res, s')"
    using assms by (rule mixmatch_ot1d_Inr)
  obtain W' Wlabels' s3 Xprime Yprime s4 Uprime Qprime where h:
    "shuffle e W Wlabels s2 = (Inr (W', Wlabels'), s3)"
    "call_mixup e Xhat (slice_to (nrows W' div 2) W') Y (take (nrows W' div 2) Wlabels') alpha K s3
       = (Inr (Xprime, Yprime), s4)"
    "call_mixup e Uhat (slice_from (nrows W' div 2) W') Q (drop (nrows W' div 2) Wlabels') alpha K s4
       = (Inr (Uprime, Qprime), s')"
    "res = (Xprime, Yprime, Uprime, Qprime)"
    using st(4) by (rule mix_halves_Inr)
  have t1: "trace s1 = trace s" using st(1) by (rule mix_augment_trace)
  have "s2 = s1\<lparr>trace := trace s1 @ map PredictCall Uaugs\<rparr>"
    using mix_labels_Inr [OF st(2)] by blast
  then have t2: "trace s2 = trace s @ map PredictCall Uaugs" using t1 by simp
  have t3: "trace s3 = trace s2 @ [ShuffleCall W Wlabels]" using h(1) by (rule shuffle_result(1))
  have t4: "trace s4 = trace s3 @
      [MixupCall Xhat (slice_to (nrows W' div 2) W') Y (take (nrows W' div 2) Wlabels') alpha K]"
    using h(2) by (rule call_mixup_trace)
  have t5: "trace s' = trace s4 @
      [MixupCall Uhat (slice_from (nrows W' div 2) W') Q (drop (nrows W' div 2) Wlabels') alpha K]"
    using h(3) by (rule call_mixup_trace)
  show ?thesis using that [OF st(1,2,3) h t2 t3] t4 t5 by simp
qed

text \<open>A predictor that keeps the row count makes \<open>Q\<close> as long as \<open>U\<close>.\<close>

lemma mix_labels_rows:
  assumes q: "mix_labels model Uaugs s1 = (Inr Q, s2)"
    and sh: "list_all (\<lambda>A. shape A = shape U) Uaugs"
    and pred: "\<And>A P. model A = Some P \<Longrightarrow> nrows P = nrows A"
  shows "nrows Q = nrows U"
proof -
  obtain preds Q0 where p: "list_all2 (\<lambda>x P. model x = Some P) Uaugs preds"
    "np_concatenate_axis1 preds = Inr Q0" "Q = sort_axis1 Q0"
    using mix_labels_Inr [OF q] by blast
  have c: "preds \<noteq> []" "nrows Q0 = nrows (hd preds)"
    using np_concatenate_axis1_Inr [OF p(2)] by simp_all
  then obtain P Ps where ps: "preds = P # Ps" by (cases preds) auto
  then obtain A As where as: "Uaugs = A # As" "model A = Some P"
    using p(1) by (cases Uaugs) auto
  have "shape A = shape U" using sh as by simp
  then have "nrows P = nrows U" using pred [OF as(2)] by (simp add: shape_def)
  then show ?thesis using c ps p(3) by (simp add: sort_axis1_props)
qed

text \<open>
  Claim C2. In a run that returns, with \<open>len(X) = len(Y) = len(U)\<close> and a predictor that
  returns one row of labels for each input row, the pool \<open>W\<close> and its labels \<open>Wlabels\<close>
  that line 110 hands to \<^verbatim>\<open>shuffle\<close> satisfy \<open>len(W) = len(Xhat) + len(Uhat)\<close>,
  \<open>len(Wlabels) = len(Y) + len(Q)\<close> and \<open>len(W) = len(Wlabels)\<close>. The last equality is
  derived from the hypotheses on the inputs, not from the check inside \<^verbatim>\<open>shuffle\<close>.
\<close>

theorem mix_pool_row_counts:
  assumes run: "mixmatch_ot1d e model X Y U stddev alpha K naug s = (Inr res, s')"
    and len: "nrows X = nrows Y" "nrows Y = nrows U"
    and pred: "\<And>A P. model A = Some P \<Longrightarrow> nrows P = nrows A"
  shows "\<exists>Xhat Uaugs Uhat s1 Q s2 W Wlabels calls.
           mix_augment e X U stddev naug s = (Inr (Xhat, Uaugs, Uhat), s1)
         \<and> mix_labels model Uaugs s1 = (Inr Q, s2)
         \<and> mix_pool e Xhat Uhat Y Q = Inr (W, Wlabels)
         \<and> trace s' = trace s2 @ ShuffleCall W Wlabels # calls
         \<and> nrows W = nrows Xhat + nrows Uhat
         \<and> length Wlabels = nrows Y + nrows Q
         \<and> nrows W = length Wlabels
         \<and> nrows W = 2 * nrows X"
proof -
  from run obtain Xhat Uaugs Uhat s1 Q s2 W Wlabels W' Wlabels' s3 Xprime Yprime s4 Uprime Qprime
    where st:
      "mix_augment e X U stddev naug s = (Inr (Xhat, Uaugs, Uhat), s1)"
      "mix_labels model Uaugs s1 = (Inr Q, s2)"
      "mix_pool e Xhat Uhat Y Q = Inr (W, Wlabels)"
    and rest:
      "shuffle e W Wlabels s2 = (Inr (W', Wlabels'), s3)"
      "call_mixup e Xhat (slice_to (nrows W' div 2) W') Y (take (nrows W' div 2) Wlabels') alpha K s3
         = (Inr (Xprime, Yprime), s4)"
      "call_mixup e Uhat (slice_from (nrows W' div 2) W') Q (drop (nrows W' div 2) Wlabels') alpha K s4
         = (Inr (Uprime, Qprime), s')"
      "res = (Xprime, Yprime, Uprime, Qprime)"
      "trace s2 = trace s @ map PredictCall Uaugs"
    and tr:
      "trace s3 = trace s2 @ [ShuffleCall W Wlabels]"
      "trace s' = trace s3 @
         [MixupCall Xhat (slice_to (nrows W' div 2) W') Y (take (nrows W' div 2) Wlabels') alpha K,
          MixupCall Uhat (slice_from (nrows W' div 2) W') Q (drop (nrows W' div 2) Wlabels') alpha K]"
    by (rule mixmatch_ot1d_run)
  have t: "\<exists>calls. trace s' = trace s2 @ ShuffleCall W Wlabels # calls" using tr by simp
  have a: "Uaugs \<noteq> []" "Uhat = last Uaugs" "shape Xhat = shape X"
    "list_all (\<lambda>A. shape A = shape U) Uaugs"
    using mix_augment_Inr [OF st(1)] by simp_all
  have "shape Uhat = shape U" using a(1,2,4) by (simp add: list_all_iff)
  then have u: "nrows Uhat = nrows U" by (simp add: shape_def)
  have x: "nrows Xhat = nrows X" using a(3) by (simp add: shape_def)
  have q: "nrows Q = nrows U" using st(2) a(4) pred by (rule mix_labels_rows)
  have p: "nrows W = nrows Xhat + nrows Uhat" "length Wlabels = nrows Y + nrows Q"
    using mix_pool_Inr [OF st(3)] by blast+
  have "nrows W = length Wlabels \<and> nrows W = 2 * nrows X" using p u x q len by simp
  then show ?thesis using st t p by blast
qed

theorem mix_pool_row_counts_witness:
  "nrows ex_X = nrows ex_Y \<and> nrows ex_Y = nrows ex_U
   \<and> (\<forall>A. \<exists>P. ex_model A = Some P \<and> nrows P = nrows A)
   \<and> mixmatch_ot1d ex_env ex_model ex_X ex_Y ex_U 1 0.75 3 1 ex_state
      = (Inr (\<lparr>ncols = 1, rows = [[1], [3]]\<rparr>, \<lparr>ncols = 1, rows = [[0], [1]]\<rparr>,
              \<lparr>ncols = 1, rows = [[5], [7]]\<rparr>, \<lparr>ncols = 1, rows = [[5], [7]]\<rparr>),
         \<lparr>rng = 7,
            trace = [PredictCall \<lparr>ncols = 1, rows = [[5], [7]]\<rparr>,
                     ShuffleCall \<lparr>ncols = 1, rows = [[1], [3], [5], [7]]\<rparr> [[0], [1], [5], [7]],
                     MixupCall \<lparr>ncols = 1, rows = [[1], [3]]\<rparr> \<lparr>ncols = 1, rows = [[7], [5]]\<rparr>
                       \<lparr>ncols = 1, rows = [[0], [1]]\<rparr> [[7], [5]] 0.75 3,
                     MixupCall \<lparr>ncols = 1, rows = [[5], [7]]\<rparr> \<lparr>ncols = 1, rows = [[3], [1]]\<rparr>
                       \<lparr>ncols = 1, rows = [[5], [7]]\<rparr> [[1], [0]] 0.75 3]\<rparr>)
   \<and> (\<exists>Xhat Uhat Q W Wlabels.
           mix_pool ex_env Xhat Uhat ex_Y Q = Inr (W, Wlabels)
         \<and> nrows W = nrows Xhat + nrows Uhat
         \<and> length Wlabels = nrows ex_Y + nrows Q
         \<and> nrows W = length Wlabels \<and> nrows W = 2 * nrows ex_X)"
proof -
  have l1: "nrows ex_X = nrows ex_Y" and l2: "nrows ex_Y = nrows ex_U"
    by (simp_all add: ex_defs nrows_def)
  have p: "\<And>A P. ex_model A = Some P \<Longrightarrow> nrows P = nrows A"
    by (auto simp: ex_model_def nrows_def)
  have run: "mixmatch_ot1d ex_env ex_model ex_X ex_Y ex_U 1 0.75 3 1 ex_state
      = (Inr (\<lparr>ncols = 1, rows = [[1], [3]]\<rparr>, \<lparr>ncols = 1, rows = [[0], [1]]\<rparr>,
              \<lparr>ncols = 1, rows = [[5], [7]]\<rparr>, \<lparr>ncols = 1, rows = [[5], [7]]\<rparr>),
         \<lparr>rng = 7,
            trace = [PredictCall \<lparr>ncols = 1, rows = [[5], [7]]\<rparr>,
                     ShuffleCall \<lparr>ncols = 1, rows = [[1], [3], [5], [7]]\<rparr> [[0], [1], [5], [7]],
                     MixupCall \<lparr>ncols = 1, rows = [[1], [3]]\<rparr> \<lparr>ncols = 1, rows = [[7], [5]]\<rparr>
                       \<lparr>ncols = 1, rows = [[0], [1]]\<rparr> [[7], [5]] 0.75 3,
                     MixupCall \<lparr>ncols = 1, rows = [[5], [7]]\<rparr> \<lparr>ncols = 1, rows = [[3], [1]]\<rparr>
                       \<lparr>ncols = 1, rows = [[5], [7]]\<rparr> [[1], [0]] 0.75 3]\<rparr>)"
    by (simp add: ex_defs np_defs mix_defs Let_def)
  have p': "\<forall>A. \<exists>P. ex_model A = Some P \<and> nrows P = nrows A"
    by (simp add: ex_model_def nrows_def)
  show ?thesis
    using l1 l2 p' run mix_pool_row_counts [OF run l1 l2 p] by blast
qed

section \<open>Data flow through the run\<close>

text \<open>
  What the list of predictions is: the predictor's value on each copy, in the order of the
  copies, when it returns on all of them; and its first exception otherwise.
\<close>

lemma map_modeln_all:
  "\<forall>x\<in>set xs. model x \<noteq> None \<Longrightarrow>
     map_modeln model xs s
       = (Inr (map (\<lambda>x. the (model x)) xs), s\<lparr>trace := trace s @ map PredictCall xs\<rparr>)"
proof (induction xs arbitrary: s)
  case Nil
  show ?case by simp
next
  case (Cons x xs)
  obtain P where P: "model x = Some P" using Cons.prems by auto
  have "\<forall>x\<in>set xs. model x \<noteq> None" using Cons.prems by simp
  then show ?case using P Cons.IH by (simp add: modeln_def)
qed

lemma map_modeln_raises:
  "\<exists>x\<in>set xs. model x = None \<Longrightarrow> fst (map_modeln model xs s) = Inl PropagatedFailure"
proof (induction xs arbitrary: s)
  case Nil
  then show ?case by simp
next
  case (Cons x xs)
  show ?case
  proof (cases "model x")
    case None
    then show ?thesis by (simp add: modeln_def)
  next
    case (Some P)
    then have "\<exists>x\<in>set xs. model x = None" using Cons.prems by auto
    then have "fst (map_modeln model xs (s\<lparr>trace := trace s @ [PredictCall x]\<rparr>))
                 = Inl PropagatedFailure"
      by (rule Cons.IH)
    then show ?thesis using Some
      by (cases "map_modeln model xs (s\<lparr>trace := trace s @ [PredictCall x]\<rparr>)")
         (simp add: modeln_def)
  qed
qed

lemma predictions_of_copies:
  "list_all2 (\<lambda>x P. model x = Some P) xs Ps \<Longrightarrow>
     Ps = map (\<lambda>x. the (model x)) xs \<and> (\<forall>x\<in>set xs. model x \<noteq> None)"
  by (induction xs Ps rule: list_all2_induct) auto

lemma mix_labels_all:
  assumes "\<forall>x\<in>set Uaugs. model x \<noteq> None"
  shows "mix_labels model Uaugs s
           = (case np_concatenate_axis1 (map (\<lambda>x. the (model x)) Uaugs) of
                Inl err \<Rightarrow> Inl err | Inr Q0 \<Rightarrow> Inr (sort_axis1 Q0),
              s\<lparr>trace := trace s @ map PredictCall Uaugs\<rparr>)"
  using map_modeln_all [OF assms, of s] by (simp add: mix_labels_def split: sum.splits)

lemma mix_labels_raises:
  assumes "\<exists>x\<in>set Uaugs. model x = None"
  shows "fst (mix_labels model Uaugs s) = Inl PropagatedFailure"
  using map_modeln_raises [OF assms, of s]
  by (cases "map_modeln model Uaugs s") (simp add: mix_labels_def)

text \<open>What a logged mixup call hands to the external routine and gets back.\<close>

lemma call_mixup_result:
  assumes "call_mixup e A P LA LP alpha K s = (r, s')"
  shows "mixup_ot1d e A P LA LP alpha K (rng s)
           = (case r of Inl err \<Rightarrow> None | Inr out \<Rightarrow> Some out, rng s')"
    and "r = Inl err \<Longrightarrow> err = PropagatedFailure"
  using assms by (auto simp: call_mixup_def Let_def split: prod.splits option.splits)

text \<open>
  Claim C4. For \<open>naug \<ge> 1\<close> (and a non-negative \<open>stddev\<close>), \<open>noisy_augment\<close> makes
  exactly \<open>naug\<close> copies of \<open>U\<close> and \<open>Uhat\<close> is the last of them. Every copy is fed to
  the predictor: an exception of the predictor on any one of them, the last included, ends
  the run with that failure; and when it returns on all of them, the pseudo-labels are the
  predictor's values on the copies, in their order, glued side by side and sorted along
  each row. A run that returns has built the pool from \<open>Xhat\<close> and that last copy, and
  its third and fourth results are what the mixup routine returns when applied to the last
  copy as data and to these pseudo-labels, with the second half of the shuffled pool.
\<close>

theorem mix_anchor_is_last_copy:
  assumes sd: "0 \<le> stddev" and na: "1 \<le> naug"
  shows "\<exists>Xhat Uaugs s0 s1.
           noisy_augment e U stddev naug s0 = (Inr Uaugs, s1) \<and> int (length Uaugs) = naug
         \<and> mix_augment e X U stddev naug s = (Inr (Xhat, Uaugs, last Uaugs), s1)
         \<and> ((\<exists>x\<in>set Uaugs. model x = None) \<longrightarrow>
               fst (mixmatch_ot1d e model X Y U stddev alpha K naug s) = Inl PropagatedFailure)
         \<and> ((\<forall>x\<in>set Uaugs. model x \<noteq> None) \<longrightarrow>
               mix_labels model Uaugs s1
                 = (case np_concatenate_axis1 (map (\<lambda>x. the (model x)) Uaugs) of
                      Inl err \<Rightarrow> Inl err | Inr Q0 \<Rightarrow> Inr (sort_axis1 Q0),
                    s1\<lparr>trace := trace s @ map PredictCall Uaugs\<rparr>))
         \<and> (\<forall>res s'. mixmatch_ot1d e model X Y U stddev alpha K naug s = (Inr res, s') \<longrightarrow>
               (\<exists>Q0 W Wlabels W' Wlabels' s3 g4 Xprime Yprime Uprime Qprime.
                  (\<forall>x\<in>set Uaugs. model x \<noteq> None)
                \<and> np_concatenate_axis1 (map (\<lambda>x. the (model x)) Uaugs) = Inr Q0
                \<and> mix_pool e Xhat (last Uaugs) Y (sort_axis1 Q0) = Inr (W, Wlabels)
                \<and> shuffle e W Wlabels (s1\<lparr>trace := trace s @ map PredictCall Uaugs\<rparr>)
                    = (Inr (W', Wlabels'), s3)
                \<and> mixup_ot1d e Xhat (slice_to (nrows W' div 2) W') Y
                      (take (nrows W' div 2) Wlabels') alpha K (rng s3)
                    = (Some (Xprime, Yprime), g4)
                \<and> mixup_ot1d e (last Uaugs) (slice_from (nrows W' div 2) W') (sort_axis1 Q0)
                      (drop (nrows W' div 2) Wlabels') alpha K g4
                    = (Some (Uprime, Qprime), rng s')
                \<and> res = (Xprime, Yprime, Uprime, Qprime)
                \<and> trace s' = trace s @ map PredictCall Uaugs
                    @ [ShuffleCall W Wlabels,
                       MixupCall Xhat (slice_to (nrows W' div 2) W') Y
                         (take (nrows W' div 2) Wlabels') alpha K,
                       MixupCall (last Uaugs) (slice_from (nrows W' div 2) W') (sort_axis1 Q0)
                         (drop (nrows W' div 2) Wlabels') alpha K]))"
proof -
  obtain Xhat Uaugs s1 where a: "mix_augment e X U stddev naug s = (Inr (Xhat, Uaugs, last Uaugs), s1)"
    using mix_augment_ok [OF sd na, of e X U s] by blast
  obtain s0 where c: "noisy_augment e U stddev naug s0 = (Inr Uaugs, s1)"
    using mix_augment_copies [OF a] by blast
  have len: "int (length Uaugs) = naug" and t1: "trace s1 = trace s"
    using mix_augment_Inr [OF a] by simp_all
  have fails: "(\<exists>x\<in>set Uaugs. model x = None) \<longrightarrow>
      fst (mixmatch_ot1d e model X Y U stddev alpha K naug s) = Inl PropagatedFailure"
  proof
    assume "\<exists>x\<in>set Uaugs. model x = None"
    then have "fst (mix_labels model Uaugs s1) = Inl PropagatedFailure"
      by (rule mix_labels_raises)
    then show "fst (mixmatch_ot1d e model X Y U stddev alpha K naug s) = Inl PropagatedFailure"
      using a by (cases "mix_labels model Uaugs s1") (simp add: mixmatch_ot1d_def)
  qed
  have lab: "(\<forall>x\<in>set Uaugs. model x \<noteq> None) \<longrightarrow>
      mix_labels model Uaugs s1
        = (case np_concatenate_axis1 (map (\<lambda>x. the (model x)) Uaugs) of
             Inl err \<Rightarrow> Inl err | Inr Q0 \<Rightarrow> Inr (sort_axis1 Q0),
           s1\<lparr>trace := trace s @ map PredictCall Uaugs\<rparr>)"
    using mix_labels_all [of Uaugs model s1] t1 by simp
  have run: "\<forall>res s'. mixmatch_ot1d e model X Y U stddev alpha K naug s = (Inr res, s') \<longrightarrow>
      (\<exists>Q0 W Wlabels W' Wlabels' s3 g4 Xprime Yprime Uprime Qprime.
         (\<forall>x\<in>set Uaugs. model x \<noteq> None)
       \<and> np_concatenate_axis1 (map (\<lambda>x. the (model x)) Uaugs) = Inr Q0
       \<and> mix_pool e Xhat (last Uaugs) Y (sort_axis1 Q0) = Inr (W, Wlabels)
       \<and> shuffle e W Wlabels (s1\<lparr>trace := trace s @ map PredictCall Uaugs\<rparr>)
                    = (Inr (W', Wlabels'), s3)
       \<and> mixup_ot1d e Xhat (slice_to (nrows W' div 2) W') Y
             (take (nrows W' div 2) Wlabels') alpha K (rng s3)
           = (Some (Xprime, Yprime), g4)
       \<and> mixup_ot1d e (last Uaugs) (slice_from (nrows W' div 2) W') (sort_axis1 Q0)
             (drop (nrows W' div 2) Wlabels') alpha K g4
           = (Some (Uprime, Qprime), rng s')
       \<and> res = (Xprime, Yprime, Uprime, Qprime)
       \<and> trace s' = trace s @ map PredictCall Uaugs
           @ [ShuffleCall W Wlabels,
              MixupCall Xhat (slice_to (nrows W' div 2) W') Y
                (take (nrows W' div 2) Wlabels') alpha K,
              MixupCall (last Uaugs) (slice_from (nrows W' div 2) W') (sort_axis1 Q0)
                (drop (nrows W' div 2) Wlabels') alpha K])"
  proof (intro allI impI)
    fix res s' assume r: "mixmatch_ot1d e model X Y U stddev alpha K naug s = (Inr res, s')"
    from r obtain Xhat' Uaugs' Uhat' s1' Q s2 W Wlabels W' Wlabels' s3 Xprime Yprime s4 Uprime Qprime
      where st: "mix_augment e X U stddev naug s = (Inr (Xhat', Uaugs', Uhat'), s1')"
        "mix_labels model Uaugs' s1' = (Inr Q, s2)"
        "mix_pool e Xhat' Uhat' Y Q = Inr (W, Wlabels)"
      and rest: "shuffle e W Wlabels s2 = (Inr (W', Wlabels'), s3)"
        "call_mixup e Xhat' (slice_to (nrows W' div 2) W') Y (take (nrows W' div 2) Wlabels') alpha K s3
           = (Inr (Xprime, Yprime), s4)"
        "call_mixup e Uhat' (slice_from (nrows W' div 2) W') Q (drop (nrows W' div 2) Wlabels') alpha K s4
           = (Inr (Uprime, Qprime), s')"
        "res = (Xprime, Yprime, Uprime, Qprime)"
      and tr: "trace s2 = trace s @ map PredictCall Uaugs'"
        "trace s3 = trace s2 @ [ShuffleCall W Wlabels]"
        "trace s' = trace s3 @
           [MixupCall Xhat' (slice_to (nrows W' div 2) W') Y (take (nrows W' div 2) Wlabels') alpha K,
            MixupCall Uhat' (slice_from (nrows W' div 2) W') Q (drop (nrows W' div 2) Wlabels') alpha K]"
      by (rule mixmatch_ot1d_run)
    have eq: "Xhat' = Xhat" "Uaugs' = Uaugs" "Uhat' = last Uaugs" "s1' = s1"
      using a st(1) by simp_all
    obtain preds Q0 where p: "list_all2 (\<lambda>x P. model x = Some P) Uaugs preds"
      and q0: "np_concatenate_axis1 preds = Inr Q0" and q: "Q = sort_axis1 Q0"
      and s2: "s2 = s1\<lparr>trace := trace s @ map PredictCall Uaugs\<rparr>"
      using mix_labels_Inr [OF st(2)] eq t1 by auto
    have pr: "preds = map (\<lambda>x. the (model x)) Uaugs" and al: "\<forall>x\<in>set Uaugs. model x \<noteq> None"
      using predictions_of_copies [OF p] by simp_all
    have mx: "mixup_ot1d e (last Uaugs) (slice_from (nrows W' div 2) W') (sort_axis1 Q0)
                (drop (nrows W' div 2) Wlabels') alpha K (rng s4) = (Some (Uprime, Qprime), rng s')"
      using call_mixup_result(1) [OF rest(3)] eq q by simp
    have mx1: "mixup_ot1d e Xhat (slice_to (nrows W' div 2) W') Y
                (take (nrows W' div 2) Wlabels') alpha K (rng s3) = (Some (Xprime, Yprime), rng s4)"
      using call_mixup_result(1) [OF rest(2)] eq by simp
    have tr': "trace s' = trace s @ map PredictCall Uaugs
           @ [ShuffleCall W Wlabels,
              MixupCall Xhat (slice_to (nrows W' div 2) W') Y
                (take (nrows W' div 2) Wlabels') alpha K,
              MixupCall (last Uaugs) (slice_from (nrows W' div 2) W') (sort_axis1 Q0)
                (drop (nrows W' div 2) Wlabels') alpha K]"
      using tr eq q by simp
    have pool: "mix_pool e Xhat (last Uaugs) Y (sort_axis1 Q0) = Inr (W, Wlabels)"
      using st(3) eq q by simp
    show "\<exists>Q0 W Wlabels W' Wlabels' s3 g4 Xprime Yprime Uprime Qprime.
         (\<forall>x\<in>set Uaugs. model x \<noteq> None)
       \<and> np_concatenate_axis1 (map (\<lambda>x. the (model x)) Uaugs) = Inr Q0
       \<and> mix_pool e Xhat (last Uaugs) Y (sort_axis1 Q0) = Inr (W, Wlabels)
       \<and> shuffle e W Wlabels (s1\<lparr>trace := trace s @ map PredictCall Uaugs\<rparr>)
                    = (Inr (W', Wlabels'), s3)
       \<and> mixup_ot1d e Xhat (slice_to (nrows W' div 2) W') Y
             (take (nrows W' div 2) Wlabels') alpha K (rng s3)
           = (Some (Xprime, Yprime), g4)
       \<and> mixup_ot1d e (last Uaugs) (slice_from (nrows W' div 2) W') (sort_axis1 Q0)
             (drop (nrows W' div 2) Wlabels') alpha K g4
           = (Some (Uprime, Qprime), rng s')
       \<and> res = (Xprime, Yprime, Uprime, Qprime)
       \<and> trace s' = trace s @ map PredictCall Uaugs
           @ [ShuffleCall W Wlabels,
              MixupCall Xhat (slice_to (nrows W' div 2) W') Y
                (take (nrows W' div 2) Wlabels') alpha K,
              MixupCall (last Uaugs) (slice_from (nrows W' div 2) W') (sort_axis1 Q0)
                (drop (nrows W' div 2) Wlabels') alpha K]"
      using al q0 [unfolded pr] pool rest(1) [unfolded s2] mx1 mx rest(4) tr'
      by - (intro exI conjI, assumption+)
  qed
  show ?thesis
    using c len a fails lab run by - (intro exI conjI, assumption+)
qed

theorem mix_anchor_is_last_copy_witness:
  "(0::real) \<le> 1 \<and> (1::int) \<le> 2
   \<and> noisy_augment ex_env ex_U 1 2 \<lparr>rng = 2, trace = []\<rparr>
       = (Inr [\<lparr>ncols = 1, rows = [[5], [7]]\<rparr>, \<lparr>ncols = 1, rows = [[7], [9]]\<rparr>],
          \<lparr>rng = 6, trace = []\<rparr>)
   \<and> mix_augment ex_env ex_X ex_U 1 2 ex_state
       = (Inr (\<lparr>ncols = 1, rows = [[1], [3]]\<rparr>,
               [\<lparr>ncols = 1, rows = [[5], [7]]\<rparr>, \<lparr>ncols = 1, rows = [[7], [9]]\<rparr>],
               \<lparr>ncols = 1, rows = [[7], [9]]\<rparr>),
          \<lparr>rng = 6, trace = []\<rparr>)
   \<and> ex_model_shy \<lparr>ncols = 1, rows = [[7], [9]]\<rparr> = None
   \<and> fst (mixmatch_ot1d ex_env ex_model_shy ex_X ex_Y2 ex_U 1 0.75 3 2 ex_state)
       = Inl PropagatedFailure
   \<and> map ex_model [\<lparr>ncols = 1, rows = [[5], [7]]\<rparr>, \<lparr>ncols = 1, rows = [[7], [9]]\<rparr>]
       = [Some \<lparr>ncols = 1, rows = [[5], [7]]\<rparr>, Some \<lparr>ncols = 1, rows = [[7], [9]]\<rparr>]
   \<and> mix_labels ex_model [\<lparr>ncols = 1, rows = [[5], [7]]\<rparr>, \<lparr>ncols = 1, rows = [[7], [9]]\<rparr>]
         \<lparr>rng = 6::nat, trace = []\<rparr>
       = (Inr \<lparr>ncols = 2, rows = [[5, 7], [7, 9]]\<rparr>,
          \<lparr>rng = 6, trace = [PredictCall \<lparr>ncols = 1, rows = [[5], [7]]\<rparr>,
                               PredictCall \<lparr>ncols = 1, rows = [[7], [9]]\<rparr>]\<rparr>)
   \<and> (\<exists>s'. mixmatch_ot1d ex_env ex_model ex_X ex_Y2 ex_U 1 0.75 3 2 ex_state
              = (Inr (\<lparr>ncols = 1, rows = [[1], [3]]\<rparr>, ex_Y2,
                      \<lparr>ncols = 1, rows = [[7], [9]]\<rparr>, \<lparr>ncols = 2, rows = [[5, 7], [7, 9]]\<rparr>), s')
        \<and> (\<exists>Q0 W Wlabels W' Wlabels' s3 g4 Xprime Yprime Uprime Qprime.
              np_concatenate_axis1
                (map (\<lambda>x. the (ex_model x))
                   [\<lparr>ncols = 1, rows = [[5], [7]]\<rparr>, \<lparr>ncols = 1, rows = [[7], [9]]\<rparr>]) = Inr Q0
            \<and> mix_pool ex_env \<lparr>ncols = 1, rows = [[1], [3]]\<rparr> \<lparr>ncols = 1, rows = [[7], [9]]\<rparr>
                  ex_Y2 (sort_axis1 Q0) = Inr (W, Wlabels)
            \<and> shuffle ex_env W Wlabels
                  \<lparr>rng = 6, trace = [PredictCall \<lparr>ncols = 1, rows = [[5], [7]]\<rparr>,
                                       PredictCall \<lparr>ncols = 1, rows = [[7], [9]]\<rparr>]\<rparr>
                = (Inr (W', Wlabels'), s3)
            \<and> mixup_ot1d ex_env \<lparr>ncols = 1, rows = [[1], [3]]\<rparr> (slice_to (nrows W' div 2) W')
                  ex_Y2 (take (nrows W' div 2) Wlabels') 0.75 3 (rng s3)
                = (Some (Xprime, Yprime), g4)
            \<and> mixup_ot1d ex_env \<lparr>ncols = 1, rows = [[7], [9]]\<rparr>
                  (slice_from (nrows W' div 2) W') (sort_axis1 Q0)
                  (drop (nrows W' div 2) Wlabels') 0.75 3 g4
                = (Some (Uprime, Qprime), rng s')
            \<and> (\<lparr>ncols = 1, rows = [[1], [3]]\<rparr>, ex_Y2,
                \<lparr>ncols = 1, rows = [[7], [9]]\<rparr>, \<lparr>ncols = 2, rows = [[5, 7], [7, 9]]\<rparr>)
                = (Xprime, Yprime, Uprime, Qprime)
            \<and> trace s'
                = [PredictCall \<lparr>ncols = 1, rows = [[5], [7]]\<rparr>,
                   PredictCall \<lparr>ncols = 1, rows = [[7], [9]]\<rparr>,
                   ShuffleCall W Wlabels,
                   MixupCall \<lparr>ncols = 1, rows = [[1], [3]]\<rparr> (slice_to (nrows W' div 2) W')
                     ex_Y2 (take (nrows W' div 2) Wlabels') 0.75 3,
                   MixupCall \<lparr>ncols = 1, rows = [[7], [9]]\<rparr> (slice_from (nrows W' div 2) W')
                     (sort_axis1 Q0) (drop (nrows W' div 2) Wlabels') 0.75 3])
        \<and> trace s'
            = [PredictCall \<lparr>ncols = 1, rows = [[5], [7]]\<rparr>,
               PredictCall \<lparr>ncols = 1, rows = [[7], [9]]\<rparr>,
               ShuffleCall \<lparr>ncols = 1, rows = [[1], [3], [7], [9]]\<rparr>
                 [[0, 0], [1, 1], [5, 7], [7, 9]],
               MixupCall \<lparr>ncols = 1, rows = [[1], [3]]\<rparr> \<lparr>ncols = 1, rows = [[9], [7]]\<rparr>
                 ex_Y2 [[7, 9], [5, 7]] 0.75 3,
               MixupCall \<lparr>ncols = 1, rows = [[7], [9]]\<rparr> \<lparr>ncols = 1, rows = [[3], [1]]\<rparr>
                 \<lparr>ncols = 2, rows = [[5, 7], [7, 9]]\<rparr> [[1, 1], [0, 0]] 0.75 3])"
proof -
  let ?U1 = "\<lparr>ncols = 1, rows = [[5::real], [7]]\<rparr>"
  let ?U2 = "\<lparr>ncols = 1, rows = [[7::real], [9]]\<rparr>"
  let ?Xhat = "\<lparr>ncols = 1, rows = [[1::real], [3]]\<rparr>"
  let ?Q = "\<lparr>ncols = 2, rows = [[5::real, 7], [7, 9]]\<rparr>"
  let ?s1 = "\<lparr>rng = 6::nat, trace = []\<rparr>"
  have h1: "(0::real) \<le> 1" and h2: "(1::int) \<le> 2" by simp_all
  have c: "noisy_augment ex_env ex_U 1 2 \<lparr>rng = 2, trace = []\<rparr> = (Inr [?U1, ?U2], ?s1)"
    by (simp add: ex_defs np_defs mix_defs eval_nat_numeral)
  have a: "mix_augment ex_env ex_X ex_U 1 2 ex_state = (Inr (?Xhat, [?U1, ?U2], ?U2), ?s1)"
    by (simp add: ex_defs np_defs mix_defs eval_nat_numeral)
  have shy: "ex_model_shy ?U2 = None" by (simp add: ex_model_shy_def)
  have ok: "map ex_model [?U1, ?U2] = [Some ?U1, Some ?U2]" by (simp add: ex_model_def)
  obtain s' where run:
    "mixmatch_ot1d ex_env ex_model ex_X ex_Y2 ex_U 1 0.75 3 2 ex_state
       = (Inr (?Xhat, ex_Y2, ?U2, ?Q), s')"
    and tr: "trace s'
            = [PredictCall ?U1, PredictCall ?U2,
               ShuffleCall \<lparr>ncols = 1, rows = [[1], [3], [7], [9]]\<rparr>
                 [[0, 0], [1, 1], [5, 7], [7, 9]],
               MixupCall ?Xhat \<lparr>ncols = 1, rows = [[9], [7]]\<rparr> ex_Y2 [[7, 9], [5, 7]] 0.75 3,
               MixupCall ?U2 \<lparr>ncols = 1, rows = [[3], [1]]\<rparr> ?Q [[1, 1], [0, 0]] 0.75 3]"
  proof -
    have "mix_halves ex_env ?Xhat ?U2 ex_Y2 ?Q
            \<lparr>ncols = 1, rows = [[1], [3], [7], [9]]\<rparr> [[0, 0], [1, 1], [5, 7], [7, 9]] 0.75 3
            \<lparr>rng = 6::nat, trace = [PredictCall ?U1, PredictCall ?U2]\<rparr>
          = (Inr (?Xhat, ex_Y2, ?U2, ?Q),
             \<lparr>rng = 9, trace = [PredictCall ?U1, PredictCall ?U2,
               ShuffleCall \<lparr>ncols = 1, rows = [[1], [3], [7], [9]]\<rparr>
                 [[0, 0], [1, 1], [5, 7], [7, 9]],
               MixupCall ?Xhat \<lparr>ncols = 1, rows = [[9], [7]]\<rparr> ex_Y2 [[7, 9], [5, 7]] 0.75 3,
               MixupCall ?U2 \<lparr>ncols = 1, rows = [[3], [1]]\<rparr> ?Q [[1, 1], [0, 0]] 0.75 3]\<rparr>)"
      by (simp add: ex_env_def mix_halves_def np_defs Let_def)
    moreover have "mix_labels ex_model [?U1, ?U2] ?s1
          = (Inr ?Q, \<lparr>rng = 6, trace = [PredictCall ?U1, PredictCall ?U2]\<rparr>)"
      by (simp add: ex_model_def mix_labels_def modeln_def np_defs)
    moreover have "mix_pool ex_env ?Xhat ?U2 ex_Y2 ?Q
          = Inr (\<lparr>ncols = 1, rows = [[1], [3], [7], [9]]\<rparr>, [[0, 0], [1, 1], [5, 7], [7, 9]])"
      by (simp add: ex_env_def ex_Y2_def mix_pool_def label_rows_def np_defs)
    ultimately have "mixmatch_ot1d ex_env ex_model ex_X ex_Y2 ex_U 1 0.75 3 2 ex_state
          = (Inr (?Xhat, ex_Y2, ?U2, ?Q),
             \<lparr>rng = 9, trace = [PredictCall ?U1, PredictCall ?U2,
               ShuffleCall \<lparr>ncols = 1, rows = [[1], [3], [7], [9]]\<rparr>
                 [[0, 0], [1, 1], [5, 7], [7, 9]],
               MixupCall ?Xhat \<lparr>ncols = 1, rows = [[9], [7]]\<rparr> ex_Y2 [[7, 9], [5, 7]] 0.75 3,
               MixupCall ?U2 \<lparr>ncols = 1, rows = [[3], [1]]\<rparr> ?Q [[1, 1], [0, 0]] 0.75 3]\<rparr>)"
      using a by (simp add: mixmatch_ot1d_def)
    then show ?thesis using that by simp
  qed
  obtain Xhat Uaugs s1 where th:
    "mix_augment ex_env ex_X ex_U 1 2 ex_state = (Inr (Xhat, Uaugs, last Uaugs), s1)"
    "(\<forall>x\<in>set Uaugs. ex_model x \<noteq> None) \<longrightarrow>
       mix_labels ex_model Uaugs s1
         = (case np_concatenate_axis1 (map (\<lambda>x. the (ex_model x)) Uaugs) of
              Inl err \<Rightarrow> Inl err | Inr Q0 \<Rightarrow> Inr (sort_axis1 Q0),
            s1\<lparr>trace := trace ex_state @ map PredictCall Uaugs\<rparr>)"
    "\<forall>res s'. mixmatch_ot1d ex_env ex_model ex_X ex_Y2 ex_U 1 0.75 3 2 ex_state = (Inr res, s') \<longrightarrow>
       (\<exists>Q0 W Wlabels W' Wlabels' s3 g4 Xprime Yprime Uprime Qprime.
          (\<forall>x\<in>set Uaugs. ex_model x \<noteq> None)
        \<and> np_concatenate_axis1 (map (\<lambda>x. the (ex_model x)) Uaugs) = Inr Q0
        \<and> mix_pool ex_env Xhat (last Uaugs) ex_Y2 (sort_axis1 Q0) = Inr (W, Wlabels)
        \<and> shuffle ex_env W Wlabels (s1\<lparr>trace := trace ex_state @ map PredictCall Uaugs\<rparr>)
            = (Inr (W', Wlabels'), s3)
        \<and> mixup_ot1d ex_env Xhat (slice_to (nrows W' div 2) W') ex_Y2
              (take (nrows W' div 2) Wlabels') 0.75 3 (rng s3)
            = (Some (Xprime, Yprime), g4)
        \<and> mixup_ot1d ex_env (last Uaugs) (slice_from (nrows W' div 2) W') (sort_axis1 Q0)
              (drop (nrows W' div 2) Wlabels') 0.75 3 g4
            = (Some (Uprime, Qprime), rng s')
        \<and> res = (Xprime, Yprime, Uprime, Qprime)
        \<and> trace s' = trace ex_state @ map PredictCall Uaugs
            @ [ShuffleCall W Wlabels,
               MixupCall Xhat (slice_to (nrows W' div 2) W') ex_Y2
                 (take (nrows W' div 2) Wlabels') 0.75 3,
               MixupCall (last Uaugs) (slice_from (nrows W' div 2) W') (sort_axis1 Q0)
                 (drop (nrows W' div 2) Wlabels') 0.75 3])"
    using mix_anchor_is_last_copy [where e = ex_env and X = ex_X and U = ex_U and Y = ex_Y2
        and model = ex_model and stddev = 1 and naug = 2 and alpha = "0.75" and K = 3
        and s = ex_state, OF h1 h2]
    by blast
  have eq: "Xhat = ?Xhat" "Uaugs = [?U1, ?U2]" "s1 = ?s1" using th(1) unfolding a by blast+
  have lab: "mix_labels ex_model [?U1, ?U2] ?s1
       = (Inr ?Q, \<lparr>rng = 6, trace = [PredictCall ?U1, PredictCall ?U2]\<rparr>)"
    using th(2) unfolding eq by (simp add: ex_model_def ex_state_def np_defs)
  have flow: "\<exists>Q0 W Wlabels W' Wlabels' s3 g4 Xprime Yprime Uprime Qprime.
          np_concatenate_axis1 (map (\<lambda>x. the (ex_model x)) [?U1, ?U2]) = Inr Q0
        \<and> mix_pool ex_env ?Xhat ?U2 ex_Y2 (sort_axis1 Q0) = Inr (W, Wlabels)
        \<and> shuffle ex_env W Wlabels \<lparr>rng = 6, trace = [PredictCall ?U1, PredictCall ?U2]\<rparr>
            = (Inr (W', Wlabels'), s3)
        \<and> mixup_ot1d ex_env ?Xhat (slice_to (nrows W' div 2) W') ex_Y2
              (take (nrows W' div 2) Wlabels') 0.75 3 (rng s3)
            = (Some (Xprime, Yprime), g4)
        \<and> mixup_ot1d ex_env ?U2 (slice_from (nrows W' div 2) W') (sort_axis1 Q0)
              (drop (nrows W' div 2) Wlabels') 0.75 3 g4
            = (Some (Uprime, Qprime), rng s')
        \<and> (?Xhat, ex_Y2, ?U2, ?Q) = (Xprime, Yprime, Uprime, Qprime)
        \<and> trace s' = [PredictCall ?U1, PredictCall ?U2,
               ShuffleCall W Wlabels,
               MixupCall ?Xhat (slice_to (nrows W' div 2) W') ex_Y2
                 (take (nrows W' div 2) Wlabels') 0.75 3,
               MixupCall ?U2 (slice_from (nrows W' div 2) W') (sort_axis1 Q0)
                 (drop (nrows W' div 2) Wlabels') 0.75 3]"
  proof -
    from th(3) [rule_format, OF run] obtain Q0 W Wlabels W' Wlabels' s3 g4 Xprime Yprime Uprime Qprime where f:
      "np_concatenate_axis1 (map (\<lambda>x. the (ex_model x)) Uaugs) = Inr Q0"
      "mix_pool ex_env Xhat (last Uaugs) ex_Y2 (sort_axis1 Q0) = Inr (W, Wlabels)"
      "shuffle ex_env W Wlabels (s1\<lparr>trace := trace ex_state @ map PredictCall Uaugs\<rparr>)
            = (Inr (W', Wlabels'), s3)"
      "mixup_ot1d ex_env Xhat (slice_to (nrows W' div 2) W') ex_Y2
              (take (nrows W' div 2) Wlabels') 0.75 3 (rng s3)
            = (Some (Xprime, Yprime), g4)"
      "mixup_ot1d ex_env (last Uaugs) (slice_from (nrows W' div 2) W') (sort_axis1 Q0)
              (drop (nrows W' div 2) Wlabels') 0.75 3 g4
            = (Some (Uprime, Qprime), rng s')"
      "(?Xhat, ex_Y2, ?U2, ?Q) = (Xprime, Yprime, Uprime, Qprime)"
      "trace s' = trace ex_state @ map PredictCall Uaugs
            @ [ShuffleCall W Wlabels,
               MixupCall Xhat (slice_to (nrows W' div 2) W') ex_Y2
                 (take (nrows W' div 2) Wlabels') 0.75 3,
               MixupCall (last Uaugs) (slice_from (nrows W' div 2) W') (sort_axis1 Q0)
                 (drop (nrows W' div 2) Wlabels') 0.75 3]"
      by (elim exE conjE) (rule that, assumption+)
    have g: "mix_pool ex_env ?Xhat ?U2 ex_Y2 (sort_axis1 Q0) = Inr (W, Wlabels)"
      "shuffle ex_env W Wlabels \<lparr>rng = 6, trace = [PredictCall ?U1, PredictCall ?U2]\<rparr>
            = (Inr (W', Wlabels'), s3)"
      "mixup_ot1d ex_env ?U2 (slice_from (nrows W' div 2) W') (sort_axis1 Q0)
              (drop (nrows W' div 2) Wlabels') 0.75 3 g4
            = (Some (Uprime, Qprime), rng s')"
      "trace s' = [PredictCall ?U1, PredictCall ?U2,
               ShuffleCall W Wlabels,
               MixupCall ?Xhat (slice_to (nrows W' div 2) W') ex_Y2
                 (take (nrows W' div 2) Wlabels') 0.75 3,
               MixupCall ?U2 (slice_from (nrows W' div 2) W') (sort_axis1 Q0)
                 (drop (nrows W' div 2) Wlabels') 0.75 3]"
      using f(2,3,5,7) unfolding eq ex_state_def
      by (simp_all only: runstate.simps list.map append.simps last.simps list.distinct if_False
            if_True refl)
    show ?thesis
      using f(1) [unfolded eq] g(1,2) f(4) [unfolded eq] g(3) f(6) g(4)
      by - (intro exI conjI, assumption+)
  qed
  obtain Xhat' Uaugs' s1' where th':
    "mix_augment ex_env ex_X ex_U 1 2 ex_state = (Inr (Xhat', Uaugs', last Uaugs'), s1')"
    "(\<exists>x\<in>set Uaugs'. ex_model_shy x = None) \<longrightarrow>
       fst (mixmatch_ot1d ex_env ex_model_shy ex_X ex_Y2 ex_U 1 0.75 3 2 ex_state)
         = Inl PropagatedFailure"
    using mix_anchor_is_last_copy [where e = ex_env and X = ex_X and U = ex_U and Y = ex_Y2
        and model = ex_model_shy and stddev = 1 and naug = 2 and alpha = "0.75" and K = 3
        and s = ex_state, OF h1 h2]
    by blast
  have "Uaugs' = [?U1, ?U2]" using th'(1) unfolding a by blast
  then have fail: "fst (mixmatch_ot1d ex_env ex_model_shy ex_X ex_Y2 ex_U 1 0.75 3 2 ex_state)
         = Inl PropagatedFailure"
    using th'(2) shy by simp
  show ?thesis
    apply (intro conjI)
            apply (rule h1, rule h2, rule c, rule a, rule shy, rule fail, rule ok, rule lab)
    apply (rule exI [of _ s'], rule conjI [OF run], rule conjI [OF flow], rule tr)
    done
qed

text \<open>
  Claim C5. Once the shuffle has returned the pool \<open>W'\<close> and its labels \<open>Wlabels'\<close>, the
  split index is \<open>l = len(W') div 2\<close>. The next external call is
  \<open>mixup_ot1d(Xhat, W'[:l], Y, Wlabels'[:l], alpha, K)\<close>; if it raises, the run ends with
  that failure, else the one call after it is
  \<open>mixup_ot1d(Uhat, W'[l:], Q, Wlabels'[l:], alpha, K)\<close>. No other call follows, and a run
  that returns gives back the outputs of these two calls, in this order.
\<close>

theorem mix_split_halves:
  fixes l first_call second_call
  assumes st: "mix_augment e X U stddev naug s = (Inr (Xhat, Uaugs, Uhat), s1)"
      "mix_labels model Uaugs s1 = (Inr Q, s2)"
      "mix_pool e Xhat Uhat Y Q = Inr (W, Wlabels)"
      "shuffle e W Wlabels s2 = (Inr (W', Wlabels'), s3)"
    and run: "mixmatch_ot1d e model X Y U stddev alpha K naug s = (r, s')"
  defines "l \<equiv> nrows W' div 2"
  defines "first_call \<equiv> MixupCall Xhat (slice_to l W') Y (take l Wlabels') alpha K"
  defines "second_call \<equiv> MixupCall Uhat (slice_from l W') Q (drop l Wlabels') alpha K"
  shows "\<exists>calls. trace s' = trace s3 @ first_call # calls
           \<and> (calls = [] \<and> r = Inl PropagatedFailure \<or> calls = [second_call])
           \<and> (\<forall>Xprime Yprime Uprime Qprime. r = Inr (Xprime, Yprime, Uprime, Qprime) \<longrightarrow>
                 calls = [second_call]
               \<and> (\<exists>g. mixup_ot1d e Xhat (slice_to l W') Y (take l Wlabels') alpha K (rng s3)
                          = (Some (Xprime, Yprime), g)
                      \<and> mixup_ot1d e Uhat (slice_from l W') Q (drop l Wlabels') alpha K g
                          = (Some (Uprime, Qprime), rng s')))"
proof -
  obtain r1 s4 where c1: "call_mixup e Xhat (slice_to l W') Y (take l Wlabels') alpha K s3 = (r1, s4)"
    by (cases "call_mixup e Xhat (slice_to l W') Y (take l Wlabels') alpha K s3")
  have t4: "trace s4 = trace s3 @ [first_call]"
    using call_mixup_trace [OF c1] by (simp add: first_call_def)
  have m: "mixmatch_ot1d e model X Y U stddev alpha K naug s
             = mix_halves e Xhat Uhat Y Q W Wlabels alpha K s2"
    using st(1,2,3) by (simp add: mixmatch_ot1d_def)
  show ?thesis
  proof (cases r1)
    case (Inl err)
    then have "err = PropagatedFailure" using call_mixup_result(2) [OF c1] by simp
    then have "r = Inl PropagatedFailure \<and> s' = s4"
      using run m st(4) c1 Inl by (simp add: mix_halves_def Let_def l_def)
    then show ?thesis using t4 by auto
  next
    case (Inr out1)
    obtain Xp Yp where out1: "out1 = (Xp, Yp)" by (cases out1)
    obtain r2 s5 where c2: "call_mixup e Uhat (slice_from l W') Q (drop l Wlabels') alpha K s4 = (r2, s5)"
      by (cases "call_mixup e Uhat (slice_from l W') Q (drop l Wlabels') alpha K s4")
    have t5: "trace s5 = trace s3 @ [first_call, second_call]"
      using call_mixup_trace [OF c2] t4 by (simp add: second_call_def)
    have res: "s' = s5 \<and> r = (case r2 of Inl err \<Rightarrow> Inl err
                                | Inr (Up, Qp) \<Rightarrow> Inr (Xp, Yp, Up, Qp))"
      using run m st(4) c1 Inr out1 c2
      by (auto simp: mix_halves_def Let_def l_def split: sum.splits)
    have m1: "mixup_ot1d e Xhat (slice_to l W') Y (take l Wlabels') alpha K (rng s3)
                = (Some (Xp, Yp), rng s4)"
      using call_mixup_result(1) [OF c1] Inr out1 by simp
    have m2: "mixup_ot1d e Uhat (slice_from l W') Q (drop l Wlabels') alpha K (rng s4)
                = (case r2 of Inl err \<Rightarrow> None | Inr out \<Rightarrow> Some out, rng s5)"
      using call_mixup_result(1) [OF c2] by simp
    have "\<forall>Xprime Yprime Uprime Qprime. r = Inr (Xprime, Yprime, Uprime, Qprime) \<longrightarrow>
            (\<exists>g. mixup_ot1d e Xhat (slice_to l W') Y (take l Wlabels') alpha K (rng s3)
                          = (Some (Xprime, Yprime), g)
                      \<and> mixup_ot1d e Uhat (slice_from l W') Q (drop l Wlabels') alpha K g
                          = (Some (Uprime, Qprime), rng s'))"
      using res m1 m2 by (cases r2) auto
    then show ?thesis using t5 res by auto
  qed
qed

theorem mix_split_halves_witness:
  "mix_augment ex_env ex_X ex_U 1 1 ex_state
     = (Inr (\<lparr>ncols = 1, rows = [[1], [3]]\<rparr>, [\<lparr>ncols = 1, rows = [[5], [7]]\<rparr>],
             \<lparr>ncols = 1, rows = [[5], [7]]\<rparr>), \<lparr>rng = 4, trace = []\<rparr>)
   \<and> mix_labels ex_model [\<lparr>ncols = 1, rows = [[5], [7]]\<rparr>] \<lparr>rng = 4::nat, trace = []\<rparr>
     = (Inr \<lparr>ncols = 1, rows = [[5], [7]]\<rparr>,
        \<lparr>rng = 4, trace = [PredictCall \<lparr>ncols = 1, rows = [[5], [7]]\<rparr>]\<rparr>)
   \<and> mix_pool ex_env \<lparr>ncols = 1, rows = [[1], [3]]\<rparr> \<lparr>ncols = 1, rows = [[5], [7]]\<rparr> ex_Y
        \<lparr>ncols = 1, rows = [[5], [7]]\<rparr>
     = Inr (\<lparr>ncols = 1, rows = [[1], [3], [5], [7]]\<rparr>, [[0], [1], [5], [7]])
   \<and> shuffle ex_env \<lparr>ncols = 1, rows = [[1], [3], [5], [7]]\<rparr> [[0], [1], [5], [7]]
        \<lparr>rng = 4, trace = [PredictCall \<lparr>ncols = 1, rows = [[5], [7]]\<rparr>]\<rparr>
     = (Inr (\<lparr>ncols = 1, rows = [[7], [5], [3], [1]]\<rparr>, [[7], [5], [1], [0]]),
        \<lparr>rng = 5, trace = [PredictCall \<lparr>ncols = 1, rows = [[5], [7]]\<rparr>,
                           ShuffleCall \<lparr>ncols = 1, rows = [[1], [3], [5], [7]]\<rparr>
                             [[0], [1], [5], [7]]]\<rparr>)
   \<and> (\<exists>s'. mixmatch_ot1d ex_env ex_model ex_X ex_Y ex_U 1 0.75 3 1 ex_state
          = (Inr (\<lparr>ncols = 1, rows = [[1], [3]]\<rparr>, \<lparr>ncols = 1, rows = [[0], [1]]\<rparr>,
                  \<lparr>ncols = 1, rows = [[5], [7]]\<rparr>, \<lparr>ncols = 1, rows = [[5], [7]]\<rparr>), s')
        \<and> trace s'
          = [PredictCall \<lparr>ncols = 1, rows = [[5], [7]]\<rparr>,
             ShuffleCall \<lparr>ncols = 1, rows = [[1], [3], [5], [7]]\<rparr> [[0], [1], [5], [7]],
             MixupCall \<lparr>ncols = 1, rows = [[1], [3]]\<rparr> \<lparr>ncols = 1, rows = [[7], [5]]\<rparr>
               ex_Y [[7], [5]] 0.75 3,
             MixupCall \<lparr>ncols = 1, rows = [[5], [7]]\<rparr> \<lparr>ncols = 1, rows = [[3], [1]]\<rparr>
               \<lparr>ncols = 1, rows = [[5], [7]]\<rparr> [[1], [0]] 0.75 3])"
proof -
  let ?Xhat = "\<lparr>ncols = 1, rows = [[1], [3]]\<rparr>"
  let ?Uhat = "\<lparr>ncols = 1, rows = [[5::real], [7]]\<rparr>"
  let ?W = "\<lparr>ncols = 1, rows = [[1::real], [3], [5], [7]]\<rparr>"
  let ?Wl = "[[0::real], [1], [5], [7]]"
  let ?s1 = "\<lparr>rng = 4::nat, trace = []\<rparr>"
  let ?s2 = "\<lparr>rng = 4::nat, trace = [PredictCall ?Uhat]\<rparr>"
  let ?s3 = "\<lparr>rng = 5::nat, trace = [PredictCall ?Uhat, ShuffleCall ?W ?Wl]\<rparr>"
  let ?res = "(?Xhat, \<lparr>ncols = 1, rows = [[0::real], [1]]\<rparr>, ?Uhat, ?Uhat)"
  have h1: "mix_augment ex_env ex_X ex_U 1 1 ex_state = (Inr (?Xhat, [?Uhat], ?Uhat), ?s1)"
    by (simp add: ex_defs np_defs mix_defs)
  have h2: "mix_labels ex_model [?Uhat] ?s1 = (Inr ?Uhat, ?s2)"
    by (simp add: ex_defs np_defs mix_defs)
  have h3: "mix_pool ex_env ?Xhat ?Uhat ex_Y ?Uhat = Inr (?W, ?Wl)"
    by (simp add: ex_defs np_defs mix_defs)
  have h4: "shuffle ex_env ?W ?Wl ?s2
              = (Inr (\<lparr>ncols = 1, rows = [[7], [5], [3], [1]]\<rparr>, [[7], [5], [1], [0]]), ?s3)"
    by (simp add: ex_defs np_defs)
  obtain s' where h5: "mixmatch_ot1d ex_env ex_model ex_X ex_Y ex_U 1 0.75 3 1 ex_state = (Inr ?res, s')"
    by (simp add: ex_defs np_defs mix_defs Let_def)
  have "trace s' = trace ?s3 @
          [MixupCall ?Xhat \<lparr>ncols = 1, rows = [[7], [5]]\<rparr> ex_Y [[7], [5]] 0.75 3,
           MixupCall ?Uhat \<lparr>ncols = 1, rows = [[3], [1]]\<rparr> ?Uhat [[1], [0]] 0.75 3]"
    using mix_split_halves [OF h1 h2 h3 h4 h5] by (auto simp: nrows_def slice_to_def slice_from_def)
  then show ?thesis using h1 h2 h3 h4 h5 by simp
qed

section \<open>Mismatched row counts\<close>

text \<open>Calls of the predictor are not calls of the mixup routine.\<close>

lemma predict_calls_only:
  "list_all (\<lambda>c. \<not> is_mixup c) (map PredictCall xs)"
  "filter is_predict (map PredictCall xs) = map PredictCall xs"
  by (induction xs) simp_all

lemma mix_labels_total:
  assumes ne: "Uaugs \<noteq> []"
    and sh: "list_all (\<lambda>A. shape A = shape U) Uaugs"
    and tot: "\<And>A. model A \<noteq> None"
    and pred: "\<And>A P. model A = Some P \<Longrightarrow> nrows P = nrows A"
  shows "\<exists>Q s2. mix_labels model Uaugs s = (Inr Q, s2)"
proof -
  have "list_all (\<lambda>x. model x \<noteq> None) Uaugs" using tot by (simp add: list_all_iff)
  then obtain preds s2 where m: "map_modeln model Uaugs s = (Inr preds, s2)"
    using map_modeln_ok [of model Uaugs s] by blast
  have l2: "list_all2 (\<lambda>x P. model x = Some P) Uaugs preds"
    using map_modeln_Inr [OF m] by simp
  have "\<forall>P \<in> set preds. nrows P = nrows U"
  proof
    fix P assume "P \<in> set preds"
    then obtain i where i: "i < length preds" "P = preds ! i" by (auto simp: in_set_conv_nth)
    have len: "length Uaugs = length preds" using l2 by (rule list_all2_lengthD)
    have mi: "model (Uaugs ! i) = Some P" using l2 i by (simp add: list_all2_conv_all_nth)
    have "Uaugs ! i \<in> set Uaugs" using i len by simp
    then have "shape (Uaugs ! i) = shape U" using sh by (simp add: list_all_iff)
    then show "nrows P = nrows U" using pred [OF mi] by (simp add: shape_def)
  qed
  then have all: "list_all (\<lambda>P. nrows P = nrows U) preds" by (simp add: list_all_iff)
  have "preds \<noteq> []" using l2 ne by (auto dest: list_all2_lengthD)
  then obtain Q0 where "np_concatenate_axis1 preds = Inr Q0"
    using np_concatenate_axis1_ok [OF _ all] by blast
  then show ?thesis using m by (simp add: mix_labels_def)
qed

text \<open>
  Claim C1, as amended. With \<open>len(X) \<noteq> len(Y)\<close> and a predictor that returns one row of
  labels for each input row, the call returns no value: it fails, and the external mixup
  routine is never called. The predictor is called before the failure: when \<open>stddev\<close> is
  non-negative, \<open>naug \<ge> 1\<close> and the predictor does not raise, it has been called on all
  \<open>naug\<close> copies and the failure is a \<^verbatim>\<open>ValueError\<close>, raised at the latest by the length
  check of \<^verbatim>\<open>shuffle\<close>.
\<close>

theorem mix_length_mismatch_fails:
  assumes neq: "nrows X \<noteq> nrows Y"
    and pred: "\<And>A P. model A = Some P \<Longrightarrow> nrows P = nrows A"
  shows "\<exists>err s' calls.
           mixmatch_ot1d e model X Y U stddev alpha K naug s = (Inl err, s')
         \<and> trace s' = trace s @ calls \<and> list_all (\<lambda>c. \<not> is_mixup c) calls
         \<and> (0 \<le> stddev \<and> 1 \<le> naug \<and> (\<forall>A. model A \<noteq> None) \<longrightarrow>
               err = ValueError \<and> int (length (filter is_predict calls)) = naug)"
proof -
  let ?goal = "\<lambda>r s'. \<exists>err calls. r = Inl err
         \<and> trace s' = trace s @ calls \<and> list_all (\<lambda>c. \<not> is_mixup c) calls
         \<and> (0 \<le> stddev \<and> 1 \<le> naug \<and> (\<forall>A. model A \<noteq> None) \<longrightarrow>
               err = ValueError \<and> int (length (filter is_predict calls)) = naug)"
  obtain r1 s1 where a: "mix_augment e X U stddev naug s = (r1, s1)"
    by (cases "mix_augment e X U stddev naug s")
  have t1: "trace s1 = trace s" using a by (rule mix_augment_trace)
  have "?goal (fst (mixmatch_ot1d e model X Y U stddev alpha K naug s))
              (snd (mixmatch_ot1d e model X Y U stddev alpha K naug s))"
  proof (cases r1)
    case (Inl err)
    have "\<not> (0 \<le> stddev \<and> 1 \<le> naug)"
      using mix_augment_ok [of stddev naug e X U s] a Inl by auto
    then show ?thesis using a Inl t1 by (auto simp: mixmatch_ot1d_def)
  next
    case (Inr v)
    obtain Xhat Uaugs Uhat where v: "v = (Xhat, Uaugs, Uhat)" by (cases v)
    have a': "mix_augment e X U stddev naug s = (Inr (Xhat, Uaugs, Uhat), s1)"
      using a Inr v by simp
    have f: "int (length Uaugs) = naug" "Uaugs \<noteq> []" "Uhat = last Uaugs" "shape Xhat = shape X"
      "list_all (\<lambda>A. shape A = shape U) Uaugs"
      using mix_augment_Inr [OF a'] by simp_all
    obtain r2 s2 where l: "mix_labels model Uaugs s1 = (r2, s2)"
      by (cases "mix_labels model Uaugs s1")
    show ?thesis
    proof (cases r2)
      case (Inl err)
      obtain k where k: "trace s2 = trace s1 @ map PredictCall (take k Uaugs)"
        using mix_labels_trace [OF l] by blast
      have "\<not> (\<forall>A. model A \<noteq> None)"
      proof
        assume "\<forall>A. model A \<noteq> None"
        then obtain Q s2' where "mix_labels model Uaugs s1 = (Inr Q, s2')"
          using mix_labels_total [where s = s1, OF f(2) f(5) _ pred] by blast
        then show False using l Inl by simp
      qed
      then have "\<not> (0 \<le> stddev \<and> 1 \<le> naug \<and> (\<forall>A. model A \<noteq> None))" by blast
      moreover have "mixmatch_ot1d e model X Y U stddev alpha K naug s = (Inl err, s2)"
        using a' l Inl by (simp add: mixmatch_ot1d_def)
      moreover have "trace s2 = trace s @ map PredictCall (take k Uaugs)" using k t1 by simp
      ultimately show ?thesis using predict_calls_only(1) [of "take k Uaugs"]
        by (metis fst_conv snd_conv)
    next
      case (Inr Q)
      have l': "mix_labels model Uaugs s1 = (Inr Q, s2)" using l Inr by simp
      have "s2 = s1\<lparr>trace := trace s1 @ map PredictCall Uaugs\<rparr>"
        using mix_labels_Inr [OF l'] by blast
      then have t2: "trace s2 = trace s @ map PredictCall Uaugs" using t1 by simp
      have q: "nrows Q = nrows U" using l' f(5) pred by (rule mix_labels_rows)
      have cnt: "int (length (filter is_predict (map PredictCall Uaugs))) = naug"
        using f(1) by (simp add: predict_calls_only)
      show ?thesis
      proof (cases "mix_pool e Xhat Uhat Y Q")
        case (Inl err)
        then have "err = ValueError" by (rule mix_pool_Inl)
        then show ?thesis using a' l' Inl t2 cnt
          by (simp add: mixmatch_ot1d_def predict_calls_only)
      next
        case (Inr p)
        obtain W Wlabels where p: "p = (W, Wlabels)" by (cases p)
        have pool: "mix_pool e Xhat Uhat Y Q = Inr (W, Wlabels)" using Inr p by simp
        have n: "nrows W = nrows Xhat + nrows Uhat" "length Wlabels = nrows Y + nrows Q"
          using mix_pool_Inr [OF pool] by blast+
        have "shape Uhat = shape U" using f(2,3,5) by (simp add: list_all_iff)
        then have "nrows W \<noteq> length Wlabels" using n q f(4) neq by (simp add: shape_def)
        then have h: "mix_halves e Xhat Uhat Y Q W Wlabels alpha K s2
                        = (Inl ValueError, s2\<lparr>trace := trace s2 @ [ShuffleCall W Wlabels]\<rparr>)"
          by (rule mix_halves_mismatch)
        have "mixmatch_ot1d e model X Y U stddev alpha K naug s
                = (Inl ValueError, s2\<lparr>trace := trace s2 @ [ShuffleCall W Wlabels]\<rparr>)"
          using a' l' pool h by (simp add: mixmatch_ot1d_def)
        then show ?thesis using t2 cnt by (simp add: predict_calls_only)
      qed
    qed
  qed
  then show ?thesis
    by (cases "mixmatch_ot1d e model X Y U stddev alpha K naug s") auto
qed

text \<open>
  Claim C1 as stated wants the failure before the predictor is called. Nothing in
  \<^verbatim>\<open>mixmatch_ot1d\<close> compares \<open>len(X)\<close> with \<open>len(Y)\<close>; on a label array one row short the
  first to notice is \<^verbatim>\<open>shuffle\<close> at line 110, after the predictor has run at line 95.
\<close>

theorem mix_length_mismatch_counterexample:
  "nrows ex_X \<noteq> nrows ex_Y_short
   \<and> mixmatch_ot1d ex_env ex_model ex_X ex_Y_short ex_U 1 0.75 3 1 ex_state
      = (Inl ValueError,
         \<lparr>rng = 4,
            trace = [PredictCall \<lparr>ncols = 1, rows = [[5], [7]]\<rparr>,
                     ShuffleCall \<lparr>ncols = 1, rows = [[1], [3], [5], [7]]\<rparr> [[0], [5], [7]]]\<rparr>)"
  by (simp add: ex_defs np_defs mix_defs Let_def)

theorem mix_length_mismatch_fails_witness:
  "nrows ex_X \<noteq> nrows ex_Y_short
   \<and> (\<forall>A. \<exists>P. ex_model A = Some P \<and> nrows P = nrows A)
   \<and> (0::real) \<le> 1 \<and> (1::int) \<le> 1 \<and> (\<forall>A. ex_model A \<noteq> None)
   \<and> (\<exists>s' calls.
        mixmatch_ot1d ex_env ex_model ex_X ex_Y_short ex_U 1 0.75 3 1 ex_state = (Inl ValueError, s')
      \<and> trace s' = trace ex_state @ calls \<and> list_all (\<lambda>c. \<not> is_mixup c) calls
      \<and> int (length (filter is_predict calls)) = 1)"
proof -
  have h1: "nrows ex_X \<noteq> nrows ex_Y_short" by (simp add: ex_defs nrows_def)
  have h2: "\<And>A P. ex_model A = Some P \<Longrightarrow> nrows P = nrows A"
    by (auto simp: ex_model_def nrows_def)
  have h3: "\<forall>A. ex_model A \<noteq> None" by (simp add: ex_model_def)
  have "\<exists>err s' calls.
           mixmatch_ot1d ex_env ex_model ex_X ex_Y_short ex_U 1 0.75 3 1 ex_state = (Inl err, s')
         \<and> trace s' = trace ex_state @ calls \<and> list_all (\<lambda>c. \<not> is_mixup c) calls
         \<and> ((0::real) \<le> 1 \<and> (1::int) \<le> 1 \<and> (\<forall>A. ex_model A \<noteq> None) \<longrightarrow>
               err = ValueError \<and> int (length (filter is_predict calls)) = 1)"
    using h1 h2 by (rule mix_length_mismatch_fails)
  moreover have "\<forall>A. \<exists>P. ex_model A = Some P \<and> nrows P = nrows A"
    by (simp add: ex_model_def nrows_def)
  ultimately show ?thesis using h1 h3 by auto
qed

section \<open>The shape of the label pool\<close>





section \<open>Determinism under a fixed seed\<close>
















section \<open>Frame: what a call leaves untouched\<close>

text \<open>Rules for \<open>keeps\<close>, one for each way a computation on the store is built.\<close>

lemma keeps_returns: "Q x \<Longrightarrow> keeps h0 (returns x) Q"
  by (simp add: keeps_def returns_def)

lemma keeps_returns_any: "keeps h0 (returns x) (\<lambda>_. True)"
  by (simp add: keeps_def returns_def)

lemma keeps_raises: "keeps h0 (raises err) Q"
  by (simp add: keeps_def raises_def)

lemma keeps_bind:
  assumes "keeps h0 m P" and "\<And>x. P x \<Longrightarrow> keeps h0 (f x) Q"
  shows "keeps h0 (bind_run m f) Q"
  unfolding keeps_def
proof (intro allI impI)
  fix s r s' assume p: "prefix h0 (store s)" and b: "bind_run m f s = (r, s')"
  obtain r1 s1 where m: "m s = (r1, s1)" by (cases "m s")
  have 1: "prefix h0 (store s1)" "\<forall>x. r1 = Inr x \<longrightarrow> P x"
    using assms(1) p m by (auto simp: keeps_def)
  show "prefix h0 (store s') \<and> (\<forall>x. r = Inr x \<longrightarrow> Q x)"
  proof (cases r1)
    case (Inl err)
    then show ?thesis using b m 1 by (auto simp: bind_run_def)
  next
    case (Inr x)
    then have "f x s1 = (r, s')" using b m by (simp add: bind_run_def)
    moreover have "keeps h0 (f x) Q" using assms(2) 1(2) Inr by simp
    ultimately show ?thesis using 1(1) by (auto simp: keeps_def)
  qed
qed

lemma keeps_if:
  "keeps h0 m1 Q \<Longrightarrow> keeps h0 m2 Q \<Longrightarrow> keeps h0 (if c then m1 else m2) Q"
  by simp

lemma keeps_weaken: "keeps h0 m P \<Longrightarrow> (\<And>x. P x \<Longrightarrow> Q x) \<Longrightarrow> keeps h0 m Q"
  by (auto simp: keeps_def)

lemma keeps_lift_result: "keeps h0 (lift_result r) (\<lambda>_. True)"
  by (simp add: keeps_def lift_result_def)

lemma keeps_with_gen: "keeps h0 (with_gen f) (\<lambda>_. True)"
  by (auto simp: keeps_def with_gen_def split: prod.splits)

lemma keeps_new_obj: "keeps h0 (new_obj v) (\<lambda>a. length h0 \<le> a)"
  by (auto simp: keeps_def new_obj_def prefix_length_le)

lemma keeps_get_arr: "keeps h0 (get_arr a) (\<lambda>_. True)"
  by (auto simp: keeps_def get_arr_def split: if_splits obj.splits)

lemma keeps_get_labels: "keeps h0 (get_labels a) (\<lambda>_. True)"
  by (auto simp: keeps_def get_labels_def split: if_splits obj.splits)

lemma keeps_put_arr:
  assumes "length h0 \<le> a"
  shows "keeps h0 (put_arr a A) (\<lambda>_. True)"
proof -
  have "prefix h0 (h[a := v])" if "prefix h0 h" for h :: "obj list" and v
  proof -
    from that obtain zs where "h = h0 @ zs" by (rule prefixE)
    then have "h[a := v] = h0 @ zs[a - length h0 := v]"
      using assms by (simp add: list_update_append)
    then show ?thesis by simp
  qed
  then show ?thesis by (auto simp: keeps_def put_arr_def split: if_splits)
qed

lemma get_arrs_eqs:
  "get_arrs [] = returns []"
  "get_arrs (a # as)
     = bind_run (get_arr a) (\<lambda>A. bind_run (get_arrs as) (\<lambda>As. returns (A # As)))"
  by (rule ext, simp)+

lemma augs_loop_at_eqs:
  "augs_loop_at e ax stddev 0 = returns []"
  "augs_loop_at e ax stddev (Suc k)
     = bind_run (noisy_copy_at e ax stddev) (\<lambda>a.
       bind_run (augs_loop_at e ax stddev k) (\<lambda>augs. returns (a # augs)))"
  by (rule ext, simp)+

lemma map_model_at_eqs:
  "map_model_at model_at [] = returns []"
  "map_model_at model_at (a # as)
     = bind_run (model_at a) (\<lambda>p.
       bind_run (map_model_at model_at as) (\<lambda>ps. returns (p # ps)))"
  by (rule ext, simp)+

lemma keeps_get_arrs: "keeps h0 (get_arrs as) (\<lambda>_. True)"
proof (induction as)
  case Nil
  show ?case unfolding get_arrs_eqs by (rule keeps_returns_any)
next
  case (Cons a as)
  show ?case
    unfolding get_arrs_eqs
    apply (rule keeps_bind [OF keeps_get_arr])
    apply (rule keeps_bind [OF Cons.IH])
    apply (rule keeps_returns_any)
    done
qed

lemma keeps_case_prod:
  "(\<And>a b. p = (a, b) \<Longrightarrow> keeps h0 (f a b) Q) \<Longrightarrow> keeps h0 (case p of (a, b) \<Rightarrow> f a b) Q"
  by (cases p) simp

lemma keeps_noisy_copy_at: "keeps h0 (noisy_copy_at e ax stddev) (\<lambda>a. length h0 \<le> a)"
  unfolding noisy_copy_at_def
  apply (rule keeps_bind [OF keeps_get_arr])
  apply (rule keeps_bind [OF keeps_with_gen])
  apply (rule keeps_bind [OF keeps_new_obj])
  apply (rule keeps_new_obj)
  done

lemma keeps_augs_loop_at: "keeps h0 (augs_loop_at e ax stddev k) (\<lambda>_. True)"
proof (induction k)
  case 0
  show ?case unfolding augs_loop_at_eqs by (rule keeps_returns_any)
next
  case (Suc k)
  show ?case
    unfolding augs_loop_at_eqs
    apply (rule keeps_bind [OF keeps_noisy_copy_at])
    apply (rule keeps_bind [OF Suc.IH])
    apply (rule keeps_returns_any)
    done
qed

lemma keeps_map_model_at:
  assumes "\<And>a. keeps h0 (model_at a) (\<lambda>_. True)"
  shows "keeps h0 (map_model_at model_at as) (\<lambda>_. True)"
proof (induction as)
  case Nil
  show ?case unfolding map_model_at_eqs by (rule keeps_returns_any)
next
  case (Cons a as)
  show ?case
    unfolding map_model_at_eqs
    apply (rule keeps_bind [OF assms])
    apply (rule keeps_bind [OF Cons.IH])
    apply (rule keeps_returns_any)
    done
qed

lemma keeps_shuffle_at: "keeps h0 (shuffle_at e aw al) (\<lambda>_. True)"
  unfolding shuffle_at_def
  apply (rule keeps_bind [OF keeps_get_arr])
  apply (rule keeps_bind [OF keeps_get_labels])
  apply (rule keeps_if [OF keeps_raises])
  apply (rule keeps_bind [OF keeps_with_gen])
  apply (rule keeps_if [OF _ keeps_raises])
  apply (rule keeps_bind [OF keeps_new_obj])
  apply (rule keeps_bind [OF keeps_new_obj])
  apply (rule keeps_returns_any)
  done

lemma keeps_mixmatch_ot1d_at:
  assumes pred: "\<And>a. keeps h0 (model_at a) (\<lambda>_. True)"
    and mix: "\<And>aa ap ala alp al k.
                keeps h0 (mixup_at aa ap ala alp al k) (\<lambda>(a, b). length h0 \<le> a \<and> length h0 \<le> b)"
  shows "keeps h0 (mixmatch_ot1d_at e model_at mixup_at ax ay au stddev alpha K naug)
           (\<lambda>(a, b, c, d). length h0 \<le> a \<and> length h0 \<le> b \<and> length h0 \<le> c \<and> length h0 \<le> d)"
  unfolding mixmatch_ot1d_at_def
  apply (rule keeps_bind [OF keeps_noisy_copy_at])
  apply (rule keeps_bind [OF keeps_augs_loop_at])
  apply (rule keeps_bind [OF keeps_if [OF keeps_raises keeps_returns_any]])
  apply (rule keeps_bind [OF keeps_map_model_at [OF pred]])
  apply (rule keeps_bind [OF keeps_get_arrs])
  apply (rule keeps_bind [OF keeps_lift_result])
  apply (rule keeps_bind [OF keeps_new_obj])
  apply (rule keeps_bind [OF keeps_get_arr])
  apply (rule keeps_bind [OF keeps_put_arr], assumption)
  apply (rule keeps_bind [OF keeps_get_arr])
  apply (rule keeps_bind [OF keeps_get_arr])
  apply (rule keeps_bind [OF keeps_lift_result])
  apply (rule keeps_bind [OF keeps_new_obj])
  apply (rule keeps_bind [OF keeps_get_arr])
  apply (rule keeps_bind [OF keeps_get_arr])
  apply (rule keeps_bind [OF keeps_lift_result])
  apply (rule keeps_bind [OF keeps_new_obj])
  apply (rule keeps_bind [OF keeps_shuffle_at])
  apply (rule keeps_case_prod)
  apply (rule keeps_bind [OF keeps_get_arr])
  apply (rule keeps_bind [OF keeps_get_labels])
  apply (rule keeps_bind [OF keeps_new_obj])
  apply (rule keeps_bind [OF keeps_new_obj])
  apply (rule keeps_bind [OF mix])
  apply (rule keeps_case_prod)
  apply (rule keeps_bind [OF keeps_get_arr])
  apply (rule keeps_bind [OF keeps_get_labels])
  apply (rule keeps_bind [OF keeps_new_obj])
  apply (rule keeps_bind [OF keeps_new_obj])
  apply (rule keeps_bind [OF mix])
  apply (rule keeps_case_prod)
  apply (rule keeps_returns)
  apply simp
  done

text \<open>Callees that only read and allocate have the frame property.\<close>

lemma keeps_model_alloc: "keeps h0 (model_alloc model a) (\<lambda>_. True)"
  unfolding model_alloc_def
  apply (rule keeps_bind [OF keeps_get_arr])
  apply (simp split: option.split)
  apply (intro conjI impI allI keeps_raises keeps_weaken [OF keeps_new_obj])
  apply simp
  done

lemma keeps_mixup_alloc:
  "keeps h0 (mixup_alloc e aa ap ala alp alpha K) (\<lambda>(a, b). length h0 \<le> a \<and> length h0 \<le> b)"
  unfolding mixup_alloc_def
  apply (rule keeps_bind [OF keeps_get_arr])
  apply (rule keeps_bind [OF keeps_get_arr])
  apply (rule keeps_bind [OF keeps_get_arr])
  apply (rule keeps_bind [OF keeps_get_labels])
  apply (rule keeps_bind [OF keeps_with_gen])
  apply (rule keeps_case_prod)
  apply (rule keeps_bind [OF keeps_new_obj])
  apply (rule keeps_bind [OF keeps_new_obj])
  apply (rule keeps_returns)
  apply simp
  done

text \<open>
  Claim C8. Let the predictor and the mixup routine leave every object that exists when
  they are called as it is, and let the mixup routine return arrays that did not exist
  before the call. Then a call of \<^verbatim>\<open>mixmatch_ot1d\<close>, whether it returns or fails, leaves
  every object of the caller's store as it was: \<open>X\<close>, \<open>Y\<close> and \<open>U\<close> among them, at
  whatever addresses they are and whether or not two of them are the same object. The four
  arrays it returns are new objects. The one write in place, the sort of \<open>Q\<close>, is to an
  object allocated during the call.
\<close>

theorem mix_leaves_inputs_alone:
  assumes pred: "\<And>a t r t'. model_at a t = (r, t') \<Longrightarrow> prefix (store t) (store t')"
    and mix: "\<And>aa ap ala alp al k t r t'. mixup_at aa ap ala alp al k t = (r, t') \<Longrightarrow>
                prefix (store t) (store t')
                \<and> (\<forall>a b. r = Inr (a, b) \<longrightarrow> length (store t) \<le> a \<and> length (store t) \<le> b)"
    and run: "mixmatch_ot1d_at e model_at mixup_at ax ay au stddev alpha K naug s = (r, s')"
  shows "prefix (store s) (store s')
         \<and> (\<forall>a < length (store s). store s' ! a = store s ! a)
         \<and> (\<forall>a b c d. r = Inr (a, b, c, d) \<longrightarrow>
               length (store s) \<le> a \<and> length (store s) \<le> b
             \<and> length (store s) \<le> c \<and> length (store s) \<le> d)"
proof -
  let ?h0 = "store s"
  have p: "keeps ?h0 (model_at a) (\<lambda>_. True)" for a
    unfolding keeps_def using pred by (blast intro: prefix_order.trans)
  have m: "keeps ?h0 (mixup_at aa ap ala alp al k) (\<lambda>(a, b). length ?h0 \<le> a \<and> length ?h0 \<le> b)"
    for aa ap ala alp al k
    unfolding keeps_def
  proof (intro allI impI)
    fix t r t' assume pre: "prefix ?h0 (store t)" and c: "mixup_at aa ap ala alp al k t = (r, t')"
    have 1: "prefix (store t) (store t')"
      "\<forall>a b. r = Inr (a, b) \<longrightarrow> length (store t) \<le> a \<and> length (store t) \<le> b"
      using mix [OF c] by simp_all
    have "length ?h0 \<le> length (store t)" using pre by (rule prefix_length_le)
    then show "prefix ?h0 (store t')
               \<and> (\<forall>x. r = Inr x \<longrightarrow> (case x of (a, b) \<Rightarrow> length ?h0 \<le> a \<and> length ?h0 \<le> b))"
      using 1 pre by (auto intro: prefix_order.trans order_trans)
  qed
  have k: "keeps ?h0 (mixmatch_ot1d_at e model_at mixup_at ax ay au stddev alpha K naug)
           (\<lambda>(a, b, c, d). length ?h0 \<le> a \<and> length ?h0 \<le> b \<and> length ?h0 \<le> c \<and> length ?h0 \<le> d)"
    using p m by (rule keeps_mixmatch_ot1d_at)
  have res: "prefix ?h0 (store s')"
    "\<forall>x. r = Inr x \<longrightarrow> (case x of (a, b, c, d) \<Rightarrow>
        length ?h0 \<le> a \<and> length ?h0 \<le> b \<and> length ?h0 \<le> c \<and> length ?h0 \<le> d)"
    using k run unfolding keeps_def by blast+
  have "\<forall>a < length ?h0. store s' ! a = ?h0 ! a"
    using res(1) by (auto elim!: prefixE simp: nth_append)
  then show ?thesis using res by auto
qed

text \<open>The example run over the store.\<close>

lemmas store_defs = returns_def raises_def bind_run_def lift_result_def with_gen_def new_obj_def
  get_arr_def get_labels_def put_arr_def noisy_copy_at_def shuffle_at_def mixmatch_ot1d_at_def
  model_alloc_def mixup_alloc_def mixup_zeroing_def ex_mstate_def label_rows_def

lemma ex_run_at:
  "mixmatch_ot1d_at ex_env (model_alloc ex_model) (mixup_alloc ex_env) 0 1 2 1 0.75 3 1 ex_mstate
   = (Inr (15, 16, 19, 20), 
  \<lparr>gen = 7,
     store =
       [Arr \<lparr>ncols = 1, rows = [[1], [2]]\<rparr>,
        Arr \<lparr>ncols = 1, rows = [[0], [1]]\<rparr>,
        Arr \<lparr>ncols = 1, rows = [[3], [4]]\<rparr>,
        Arr \<lparr>ncols = 1, rows = [[0], [1]]\<rparr>,
        Arr \<lparr>ncols = 1, rows = [[1], [3]]\<rparr>,
        Arr \<lparr>ncols = 1, rows = [[2], [3]]\<rparr>,
        Arr \<lparr>ncols = 1, rows = [[5], [7]]\<rparr>,
        Arr \<lparr>ncols = 1, rows = [[5], [7]]\<rparr>,
        Arr \<lparr>ncols = 1, rows = [[5], [7]]\<rparr>,
        Arr \<lparr>ncols = 1, rows = [[1], [3], [5], [7]]\<rparr>,
        Labels [[0], [1], [5], [7]],
        Arr \<lparr>ncols = 1, rows = [[7], [5], [3], [1]]\<rparr>,
        Labels [[7], [5], [1], [0]], Arr \<lparr>ncols = 1, rows = [[7], [5]]\<rparr>,
        Labels [[7], [5]], Arr \<lparr>ncols = 1, rows = [[1], [3]]\<rparr>,
        Arr \<lparr>ncols = 1, rows = [[0], [1]]\<rparr>,
        Arr \<lparr>ncols = 1, rows = [[3], [1]]\<rparr>, Labels [[1], [0]],
        Arr \<lparr>ncols = 1, rows = [[5], [7]]\<rparr>,
        Arr \<lparr>ncols = 1, rows = [[5], [7]]\<rparr>]\<rparr>)"
  by (simp add: store_defs ex_defs np_defs Let_def)

lemma model_alloc_frame:
  "model_alloc model a t = (r, t') \<Longrightarrow> prefix (store t) (store t')"
  using keeps_model_alloc [of "store t" model a] unfolding keeps_def by blast

lemma mixup_alloc_frame:
  assumes "mixup_alloc e aa ap ala alp alpha K t = (r, t')"
  shows "prefix (store t) (store t')
         \<and> (\<forall>a b. r = Inr (a, b) \<longrightarrow> length (store t) \<le> a \<and> length (store t) \<le> b)"
proof -
  have "prefix (store t) (store t')
        \<and> (\<forall>x. r = Inr x \<longrightarrow> (case x of (a, b) \<Rightarrow> length (store t) \<le> a \<and> length (store t) \<le> b))"
    using keeps_mixup_alloc [of "store t" e aa ap ala alp alpha K] assms
    unfolding keeps_def by blast
  then show ?thesis by auto
qed

theorem mix_leaves_inputs_alone_witness:
  "(\<exists>s'. mixmatch_ot1d_at ex_env (model_alloc ex_model) (mixup_alloc ex_env) 0 1 2 1 0.75 3 1
              ex_mstate = (Inr (15, 16, 19, 20), s')
         \<and> prefix [Arr ex_X, Arr ex_Y, Arr ex_U] (store s')
         \<and> length (store ex_mstate) \<le> 15
         \<and> map (\<lambda>a. store s' ! a) [15, 16, 19, 20]
             = [Arr \<lparr>ncols = 1, rows = [[1], [3]]\<rparr>, Arr \<lparr>ncols = 1, rows = [[0], [1]]\<rparr>,
                Arr \<lparr>ncols = 1, rows = [[5], [7]]\<rparr>, Arr \<lparr>ncols = 1, rows = [[5], [7]]\<rparr>])
   \<and> fst (mixmatch_ot1d ex_env ex_model ex_X ex_Y ex_U 1 0.75 3 1 ex_state)
       = Inr (\<lparr>ncols = 1, rows = [[1], [3]]\<rparr>, \<lparr>ncols = 1, rows = [[0], [1]]\<rparr>,
              \<lparr>ncols = 1, rows = [[5], [7]]\<rparr>, \<lparr>ncols = 1, rows = [[5], [7]]\<rparr>)"
proof -
  obtain s' where run:
    "mixmatch_ot1d_at ex_env (model_alloc ex_model) (mixup_alloc ex_env) 0 1 2 1 0.75 3 1 ex_mstate
       = (Inr (15, 16, 19, 20), s')"
    and vals: "map (\<lambda>a. store s' ! a) [15, 16, 19, 20]
             = [Arr \<lparr>ncols = 1, rows = [[1], [3]]\<rparr>, Arr \<lparr>ncols = 1, rows = [[0], [1]]\<rparr>,
                Arr \<lparr>ncols = 1, rows = [[5], [7]]\<rparr>, Arr \<lparr>ncols = 1, rows = [[5], [7]]\<rparr>]"
    using ex_run_at by simp
  have "prefix (store ex_mstate) (store s')
         \<and> (\<forall>a < length (store ex_mstate). store s' ! a = store ex_mstate ! a)
         \<and> (\<forall>a b c d. Inr (15, 16, 19, 20) = (Inr (a, b, c, d) :: error + addr \<times> addr \<times> addr \<times> addr) \<longrightarrow>
               length (store ex_mstate) \<le> a \<and> length (store ex_mstate) \<le> b
             \<and> length (store ex_mstate) \<le> c \<and> length (store ex_mstate) \<le> d)"
    by (rule mix_leaves_inputs_alone [OF _ _ run]) (erule model_alloc_frame, erule mixup_alloc_frame)
  then have fr: "prefix (store ex_mstate) (store s')" "length (store ex_mstate) \<le> 15"
    by blast+
  have pure: "fst (mixmatch_ot1d ex_env ex_model ex_X ex_Y ex_U 1 0.75 3 1 ex_state)
       = Inr (\<lparr>ncols = 1, rows = [[1], [3]]\<rparr>, \<lparr>ncols = 1, rows = [[0], [1]]\<rparr>,
              \<lparr>ncols = 1, rows = [[5], [7]]\<rparr>, \<lparr>ncols = 1, rows = [[5], [7]]\<rparr>)"
    by (simp add: ex_defs np_defs mix_defs Let_def)
  have "prefix [Arr ex_X, Arr ex_Y, Arr ex_U] (store s')" using fr(1) by (simp add: ex_mstate_def)
  then have C: "\<exists>s'. mixmatch_ot1d_at ex_env (model_alloc ex_model) (mixup_alloc ex_env) 0 1 2 1 0.75 3 1
              ex_mstate = (Inr (15, 16, 19, 20), s')
         \<and> prefix [Arr ex_X, Arr ex_Y, Arr ex_U] (store s')
         \<and> length (store ex_mstate) \<le> 15
         \<and> map (\<lambda>a. store s' ! a) [15, 16, 19, 20]
             = [Arr \<lparr>ncols = 1, rows = [[1], [3]]\<rparr>, Arr \<lparr>ncols = 1, rows = [[0], [1]]\<rparr>,
                Arr \<lparr>ncols = 1, rows = [[5], [7]]\<rparr>, Arr \<lparr>ncols = 1, rows = [[5], [7]]\<rparr>]"
    using run vals fr(2) by (intro exI [of _ s'] conjI)
  show ?thesis using C pure by (intro conjI)
qed

text \<open>
  The hypotheses on the callees are needed: \<open>Y\<close> itself is passed to the mixup routine,
  so a routine that writes to its anchor labels changes the caller's \<open>Y\<close>.
\<close>

lemma mix_passes_labels_by_reference:
  "store ex_mstate ! 1 = Arr \<lparr>ncols = 1, rows = [[0], [1]]\<rparr>
   \<and> store (snd (mixmatch_ot1d_at ex_env (model_alloc ex_model) mixup_zeroing 0 1 2 1 0.75 3 1
               ex_mstate)) ! 1
       = Arr \<lparr>ncols = 1, rows = [[0], [0]]\<rparr>"
  by (simp add: store_defs ex_defs np_defs Let_def)

end
